(* ===== verification/F16_Prelude.thy ===== *)
theory F16_Prelude
  imports Main "HOL-Library.Sublist" "HOL-Library.Monad_Syntax"
begin

section \<open>Shared vocabulary\<close>

text \<open>
  What every component of f16 shares.

  \<^item> A \<open>std::string\<close> is a list of bytes: HOL's \<^typ>\<open>string\<close>, a list of 8-bit \<^typ>\<open>char\<close>.
    \<open>find\<close> returns an option, \<open>None\<close> being \<open>std::string::npos\<close>.
  \<^item> An \<open>unordered_map\<close> from strings to strings is a partial map; nothing in f16 iterates over one.
  \<^item> A plain \<open>char\<close> promoted to \<open>int\<close> is signed, as on the x86 platforms f16 is built for.
  \<^item> A C++ \<open>int\<close> is a mathematical integer together with the explicit check that an operation
    stays in 32 bits: overflow is undefined behaviour in C++ and is \<open>None\<close> here.
  \<^item> A thrown exception is the left of a sum.
\<close>

named_theorems char_class \<open>the character classes evaluated at the delimiters of HTTP\<close>

type_synonym params = "string \<rightharpoonup> string"

datatype exn =
    Filesystem_error
  | Invalid_argument string
  | Bad_function_call
  | Handler_exception string
  | Runtime_error string
  | Json_error
  | Missing_key string
  | System_error


subsection \<open>Bytes and characters\<close>

abbreviation CR :: char where "CR \<equiv> CHR 0x0D"
abbreviation LF :: char where "LF \<equiv> CHR 0x0A"
abbreviation HT :: char where "HT \<equiv> CHR 0x09"
abbreviation SP :: char where "SP \<equiv> CHR '' ''"
abbreviation NUL :: char where "NUL \<equiv> CHR 0x00"
abbreviation CRLF :: string where "CRLF \<equiv> [CR, LF]"

text \<open>The integral promotion of a (signed) plain \<open>char\<close>.\<close>

definition char_int :: "char \<Rightarrow> int" where
  "char_int c = (let b = of_char c in if b < 128 then b else b - 256)"

lemma of_char_int_bounds: "0 \<le> (of_char c :: int) \<and> (of_char c :: int) < 256"
  by (cases c) (simp add: of_char_def horner_sum_simps)


subsection \<open>32-bit signed arithmetic with the overflow written out\<close>

definition INT_MAX :: int where "INT_MAX = 2147483647"
definition INT_MIN :: int where "INT_MIN = - 2147483648"

definition int32 :: "int \<Rightarrow> int option" where
  "int32 x = (if INT_MIN \<le> x \<and> x \<le> INT_MAX then Some x else None)"

definition int_mult :: "int \<Rightarrow> int \<Rightarrow> int option" where "int_mult a b = int32 (a * b)"
definition int_add :: "int \<Rightarrow> int \<Rightarrow> int option" where "int_add a b = int32 (a + b)"
definition int_sub :: "int \<Rightarrow> int \<Rightarrow> int option" where "int_sub a b = int32 (a - b)"

lemmas int_op_defs = int_mult_def int_add_def int_sub_def int32_def INT_MAX_def INT_MIN_def


subsection \<open>Operations of \<open>std::string\<close>\<close>

text \<open>\<open>s.find(c, pos)\<close>\<close>

definition find_from :: "char \<Rightarrow> string \<Rightarrow> nat \<Rightarrow> nat option" where
  "find_from c s pos =
     (if c \<in> set (drop pos s)
      then Some (pos + length (takeWhile (\<lambda>x. x \<noteq> c) (drop pos s)))
      else None)"

text \<open>\<open>s.substr(pos, n)\<close> for \<open>pos \<le> s.size()\<close>, which holds at every call of f16\<close>

definition substr :: "string \<Rightarrow> nat \<Rightarrow> nat \<Rightarrow> string" where
  "substr s pos n = take n (drop pos s)"

text \<open>\<open>s.find(needle)\<close> for a string\<close>

fun find_str :: "string \<Rightarrow> string \<Rightarrow> nat option" where
  "find_str needle [] = (if needle = [] then Some 0 else None)"
| "find_str needle (c # cs) =
     (if prefix needle (c # cs) then Some 0 else map_option Suc (find_str needle cs))"

text \<open>\<open>s.replace(pos, n, by)\<close> and \<open>s.erase(pos)\<close>\<close>

definition replace_at :: "string \<Rightarrow> nat \<Rightarrow> nat \<Rightarrow> string \<Rightarrow> string" where
  "replace_at s pos n by_s = take pos s @ by_s @ drop (pos + n) s"

lemma dropWhile_eq_drop_length: "dropWhile P xs = drop (length (takeWhile P xs)) xs"
  by (simp add: dropWhile_eq_drop)

lemma take_length_takeWhile: "take (length (takeWhile P xs)) xs = takeWhile P xs"
  by (metis takeWhile_eq_take)

text \<open>A string cut at the first occurrence of a delimiter, or not at all\<close>

lemma takeWhile_absent: "c \<notin> set s \<Longrightarrow> takeWhile (\<lambda>x. x \<noteq> c) s = s"
  by (induction s) auto

lemma dropWhile_absent: "c \<notin> set s \<Longrightarrow> dropWhile (\<lambda>x. x \<noteq> c) s = []"
  by (induction s) auto

lemma takeWhile_cut: "c \<notin> set a \<Longrightarrow> takeWhile (\<lambda>x. x \<noteq> c) (a @ c # b) = a"
  by (induction a) auto

lemma dropWhile_cut: "c \<notin> set a \<Longrightarrow> dropWhile (\<lambda>x. x \<noteq> c) (a @ c # b) = c # b"
  by (induction a) auto

lemma find_from_Some_iff:
  "find_from c s pos = Some i \<longleftrightarrow>
     c \<in> set (drop pos s) \<and> i = pos + length (takeWhile (\<lambda>x. x \<noteq> c) (drop pos s))"
  by (auto simp: find_from_def)

lemma find_from_lt: "find_from c s pos = Some i \<Longrightarrow> pos \<le> i \<and> i < length s"
proof -
  assume f: "find_from c s pos = Some i"
  then have c: "c \<in> set (drop pos s)"
    and i: "i = pos + length (takeWhile (\<lambda>x. x \<noteq> c) (drop pos s))"
    by (auto simp: find_from_Some_iff)
  from c have "length (takeWhile (\<lambda>x. x \<noteq> c) (drop pos s)) < length (drop pos s)"
    by (metis (mono_tags, lifting) length_takeWhile_le nat_less_le take_all take_length_takeWhile
        set_takeWhileD order.refl)
  with i show ?thesis by simp
qed

text \<open>
  The code reads the characters up to the next delimiter as \<open>substr(pos, find(c, pos) - pos)\<close>
  and goes on at the delimiter, or at the end if there is none. Both are the split of the rest
  of the string by \<^const>\<open>takeWhile\<close> and \<^const>\<open>dropWhile\<close>.
\<close>

lemma substr_find_from:
  "(case find_from c s pos of None \<Rightarrow> drop pos s | Some e \<Rightarrow> substr s pos (e - pos)) =
     takeWhile (\<lambda>x. x \<noteq> c) (drop pos s)"
proof (cases "c \<in> set (drop pos s)")
  case True
  then show ?thesis by (simp add: find_from_def substr_def take_length_takeWhile)
next
  case False
  then show ?thesis by (simp add: find_from_def takeWhile_absent)
qed

lemma drop_find_from:
  "drop (case find_from c s pos of None \<Rightarrow> length s | Some e \<Rightarrow> e) s =
     dropWhile (\<lambda>x. x \<noteq> c) (drop pos s)"
proof (cases "c \<in> set (drop pos s)")
  case True
  then show ?thesis by (simp add: find_from_def dropWhile_eq_drop_length add.commute)
next
  case False
  then show ?thesis by (simp add: find_from_def dropWhile_absent)
qed

lemma find_str_None_iff: "find_str needle s = None \<longleftrightarrow> \<not> sublist needle s"
  by (induction needle s rule: find_str.induct) (auto simp: sublist_Cons_right)


subsection \<open>Decimal numbers: \<open>std::to_string\<close>\<close>

definition digit_char :: "nat \<Rightarrow> char" where
  "digit_char d = char_of (48 + d)"

fun to_string :: "nat \<Rightarrow> string" where
  "to_string n = (if n < 10 then [digit_char n] else to_string (n div 10) @ [digit_char (n mod 10)])"

declare to_string.simps [simp del]

definition digit_value :: "char \<Rightarrow> nat" where
  "digit_value c = of_char c - 48"

text \<open>The value a reader of a decimal numeral gets, digit by digit.\<close>

definition decimal :: "string \<Rightarrow> nat" where
  "decimal s = foldl (\<lambda>v c. v * 10 + digit_value c) 0 s"

definition is_decimal :: "string \<Rightarrow> bool" where
  "is_decimal s \<longleftrightarrow> s \<noteq> [] \<and> (\<forall>c \<in> set s. 48 \<le> char_int c \<and> char_int c \<le> 57)"

lemma of_char_digit_char: "d < 10 \<Longrightarrow> of_char (digit_char d) = (48 + d :: nat)"
  by (simp add: digit_char_def)

lemma digit_value_digit_char [simp]: "d < 10 \<Longrightarrow> digit_value (digit_char d) = d"
  by (simp add: digit_value_def of_char_digit_char)

lemma decimal_snoc: "decimal (s @ [c]) = decimal s * 10 + digit_value c"
  by (simp add: decimal_def)

lemma decimal_to_string: "decimal (to_string n) = n"
proof (induction n rule: to_string.induct)
  case (1 n)
  show ?case
  proof (cases "n < 10")
    case True
    then show ?thesis by (simp add: to_string.simps [of n] decimal_def)
  next
    case False
    with "1.IH" show ?thesis by (simp add: to_string.simps [of n] decimal_snoc)
  qed
qed

lemma to_string_inj: "to_string m = to_string n \<longleftrightarrow> m = n"
  by (metis decimal_to_string)

lemma char_int_digit_char: "d < 10 \<Longrightarrow> char_int (digit_char d) = 48 + int d"
proof -
  assume "d < 10"
  then have "(of_char (digit_char d) :: int) = 48 + int d"
    by (metis of_char_digit_char of_nat_add of_nat_numeral of_nat_of_char)
  with \<open>d < 10\<close> show ?thesis by (simp add: char_int_def)
qed

lemma to_string_is_decimal: "is_decimal (to_string n)"
proof (induction n rule: to_string.induct)
  case (1 n)
  show ?case
  proof (cases "n < 10")
    case True
    then show ?thesis by (simp add: to_string.simps [of n] is_decimal_def char_int_digit_char)
  next
    case False
    with "1.IH" show ?thesis
      by (auto simp: to_string.simps [of n] is_decimal_def char_int_digit_char)
  qed
qed

text \<open>A text without line breaks, which can neither end a header line nor start another one\<close>

definition one_line :: "string \<Rightarrow> bool" where
  "one_line s \<longleftrightarrow> CR \<notin> set s \<and> LF \<notin> set s"

lemma one_line_simps [simp]:
  "one_line []"
  "one_line (c # s) \<longleftrightarrow> c \<noteq> CR \<and> c \<noteq> LF \<and> one_line s"
  "one_line (s @ t) \<longleftrightarrow> one_line s \<and> one_line t"
  by (auto simp: one_line_def)

lemma char_int_CR_LF: "char_int CR = 13" "char_int LF = 10"
  by (simp_all add: char_int_def)

lemma one_line_range: "\<forall>c \<in> set s. 13 < char_int c \<Longrightarrow> one_line s"
  by (force simp: one_line_def char_int_CR_LF)

lemma one_line_to_string [simp]: "one_line (to_string n)"
  using to_string_is_decimal [of n] by (intro one_line_range) (force simp: is_decimal_def)

text \<open>Two texts cut at the first occurrence of a delimiter\<close>

lemma cut_at_eq:
  "c \<notin> set a \<Longrightarrow> c \<notin> set b \<Longrightarrow> a @ c # x = b @ c # y \<longleftrightarrow> a = b \<and> x = y"
proof (induction a arbitrary: b)
  case Nil
  then show ?case by (cases b) auto
next
  case (Cons d a)
  then show ?case by (cases b) auto
qed

text \<open>\<^verbatim>\<open>std::find_if\<close> returns the first element that satisfies the predicate.\<close>

lemma find_first:
  "\<forall>x \<in> set pre. \<not> P x \<Longrightarrow> P y \<Longrightarrow> List.find P (pre @ y # post) = Some y"
  by (induction pre) auto


subsection \<open>Exceptions\<close>

text \<open>A statement that may throw, followed by the rest of the block\<close>

definition andthen :: "exn + 'a \<Rightarrow> ('a \<Rightarrow> exn + 'b) \<Rightarrow> exn + 'b" where
  "andthen m f = (case m of Inl e \<Rightarrow> Inl e | Inr x \<Rightarrow> f x)"

lemma andthen_simps [simp]:
  "andthen (Inl e) f = Inl e"
  "andthen (Inr x) f = f x"
  by (simp_all add: andthen_def)

lemma andthen_Inr_iff: "andthen m f = Inr y \<longleftrightarrow> (\<exists>x. m = Inr x \<and> f x = Inr y)"
  by (cases m) auto

text \<open>Calls of a library, each of which may throw; \<open>throws\<close> tells what\<close>

fun run_calls :: "('c \<Rightarrow> exn option) \<Rightarrow> 'c list \<Rightarrow> exn + unit" where
  "run_calls throws [] = Inr ()"
| "run_calls throws (c # cs) = (case throws c of Some e \<Rightarrow> Inl e | None \<Rightarrow> run_calls throws cs)"

lemma run_calls_Inr: "run_calls throws cs = Inr u \<longleftrightarrow> (\<forall>c \<in> set cs. throws c = None)"
  by (induction cs) (auto split: option.split)

lemma run_calls_Inl: "run_calls throws cs = Inl e \<Longrightarrow> \<exists>c \<in> set cs. throws c = Some e"
  by (induction cs) (auto split: option.splits)

end
