(* ===== verification/Url.thy ===== *)
theory Url
  imports F16_Prelude
begin

section \<open>URL decoding (\<open>src/lib/url.cpp\<close>)\<close>

text \<open>
  \<^verbatim>\<open>url_decode\<close> walks over the input by index and appends to its out parameter. The model keeps
  the index loop and returns the flag with the final value of \<^verbatim>\<open>out\<close>, which the code leaves
  partially filled when it fails. The reference is the relation \<open>url_encodes e s\<close>: the text \<open>e\<close> is
  one of the many encodings of \<open>s\<close>.
\<close>

text \<open>\<^verbatim>\<open>std::isxdigit\<close> in the C locale; a byte above 127 is no hexadecimal digit.\<close>

definition isxdigit :: "char \<Rightarrow> bool" where
  "isxdigit c = (let i = char_int c in
     48 \<le> i \<and> i \<le> 57 \<or> 65 \<le> i \<and> i \<le> 70 \<or> 97 \<le> i \<and> i \<le> 102)"

definition hex_digit :: "char \<Rightarrow> int" where
  "hex_digit c = (let i = char_int c in
     if i \<le> 57 then i - 48 else if i \<le> 70 then i - 55 else i - 87)"

text \<open>
  \<^verbatim>\<open>is >> std::hex >> value\<close> on a string of hexadecimal digits: it reads the digits it finds and
  fails if there is none.
\<close>

definition read_hex :: "string \<Rightarrow> int option" where
  "read_hex s = (let ds = takeWhile isxdigit s in
     if ds = [] then None else Some (foldl (\<lambda>v c. v * 16 + hex_digit c) 0 ds))"

text \<open>\<^verbatim>\<open>static_cast<char>(value)\<close>: the low byte\<close>

definition cast_char :: "int \<Rightarrow> char" where
  "cast_char v = char_of v"

function url_decode_loop :: "string \<Rightarrow> nat \<Rightarrow> string \<Rightarrow> bool \<times> string" where
  "url_decode_loop inp i out =
     (if i < length inp then
        (if inp ! i = CHR ''%'' then
           (if i + 2 < length inp then
              (let hex = [inp ! (i + 1), inp ! (i + 2)] in
               if isxdigit (hex ! 0) \<and> isxdigit (hex ! 1) then
                 (case read_hex hex of
                    Some value \<Rightarrow> url_decode_loop inp (Suc (i + 2)) (out @ [cast_char value])
                  | None \<Rightarrow> (False, out))
               else (False, out))
            else (False, out))
         else if inp ! i = CHR ''+'' then url_decode_loop inp (Suc i) (out @ [SP])
         else url_decode_loop inp (Suc i) (out @ [inp ! i]))
      else (True, out))"
  by pat_completeness auto
termination
  by (relation "measure (\<lambda>(inp, i, out). length inp - i)") auto

declare url_decode_loop.simps [simp del]

definition url_decode :: "string \<Rightarrow> bool \<times> string" where
  "url_decode inp = url_decode_loop inp 0 []"


subsection \<open>The loop over indices is a recursion over the rest of the input\<close>

definition escape :: "char \<Rightarrow> char \<Rightarrow> char" where
  "escape h l = cast_char (hex_digit h * 16 + hex_digit l)"

fun decode_rest :: "string \<Rightarrow> string \<Rightarrow> bool \<times> string" where
  "decode_rest [] out = (True, out)"
| "decode_rest (c # cs) out =
     (if c = CHR ''%'' then
        (case cs of
           h # l # rest \<Rightarrow>
             if isxdigit h \<and> isxdigit l then decode_rest rest (out @ [escape h l]) else (False, out)
         | _ \<Rightarrow> (False, out))
      else if c = CHR ''+'' then decode_rest cs (out @ [SP])
      else decode_rest cs (out @ [c]))"

lemma read_hex_pair:
  "isxdigit h \<Longrightarrow> isxdigit l \<Longrightarrow> read_hex [h, l] = Some (hex_digit h * 16 + hex_digit l)"
  by (simp add: read_hex_def)

lemma drop_eq_Cons3:
  "Suc (Suc i) < length s \<Longrightarrow>
     drop i s = s ! i # s ! Suc i # s ! Suc (Suc i) # drop (Suc (Suc (Suc i))) s"
  by (simp add: Cons_nth_drop_Suc [symmetric])

lemma url_decode_loop_eq: "url_decode_loop inp i out = decode_rest (drop i inp) out"
proof (induction inp i out rule: url_decode_loop.induct)
  case (1 inp i out)
  consider (stop) "\<not> i < length inp"
    | (escape) "i + 2 < length inp" "inp ! i = CHR ''%''"
    | (short) "i < length inp" "\<not> i + 2 < length inp" "inp ! i = CHR ''%''"
    | (other) "i < length inp" "inp ! i \<noteq> CHR ''%''"
    by linarith
  then show ?case
  proof cases
    case stop
    then show ?thesis by (simp add: url_decode_loop.simps [of inp i])
  next
    case escape
    then show ?thesis
      using "1.IH"(1) [of "[inp ! (i + 1), inp ! (i + 2)]"]
      by (simp add: url_decode_loop.simps [of inp i] drop_eq_Cons3 read_hex_pair escape_def)
  next
    case short
    then have "length (drop (Suc i) inp) < 2" by simp
    then obtain r where r: "drop i inp = CHR ''%'' # r" "length r < 2"
      using short Cons_nth_drop_Suc by metis
    then show ?thesis using short
      by (auto simp: url_decode_loop.simps [of inp i] length_Suc_conv split: list.split)
  next
    case other
    then show ?thesis using "1.IH"(2,3)
      by (simp add: url_decode_loop.simps [of inp i] Cons_nth_drop_Suc [symmetric])
  qed
qed

lemma url_decode_eq: "url_decode inp = decode_rest inp []"
  by (simp add: url_decode_def url_decode_loop_eq)


subsection \<open>The encodings of a string\<close>

inductive url_encodes :: "string \<Rightarrow> string \<Rightarrow> bool" where
  enc_end: "url_encodes [] []"
| enc_escape: "isxdigit h \<Longrightarrow> isxdigit l \<Longrightarrow> url_encodes e s \<Longrightarrow>
    url_encodes (CHR ''%'' # h # l # e) (escape h l # s)"
| enc_plus: "url_encodes e s \<Longrightarrow> url_encodes (CHR ''+'' # e) (SP # s)"
| enc_plain: "c \<noteq> CHR ''%'' \<Longrightarrow> c \<noteq> CHR ''+'' \<Longrightarrow> url_encodes e s \<Longrightarrow> url_encodes (c # e) (c # s)"

inductive_cases url_encodes_NilE: "url_encodes [] s"
inductive_cases url_encodes_ConsE: "url_encodes (c # e) s"

text \<open>What follows a \<open>%\<close> that the decoder rejects\<close>

definition bad_escape :: "string \<Rightarrow> bool" where
  "bad_escape r \<longleftrightarrow> \<not> (\<exists>h l r'. r = h # l # r' \<and> isxdigit h \<and> isxdigit l)"

lemma decode_rest_encodes: "url_encodes e s \<Longrightarrow> decode_rest (e @ r) out = decode_rest r (out @ s)"
  by (induction arbitrary: out rule: url_encodes.induct) auto

lemma decode_rest_result:
  "decode_rest e out = (b, out') \<Longrightarrow>
     \<exists>pre s r. e = pre @ r \<and> url_encodes pre s \<and> out' = out @ s \<and>
       (if b then r = [] else \<exists>r'. r = CHR ''%'' # r' \<and> bad_escape r')"
proof (induction e out rule: decode_rest.induct)
  case (1 out)
  then show ?case by (auto intro: enc_end)
next
  case (2 c cs out)
  show ?case
  proof (cases "c = CHR ''%''")
    case True
    show ?thesis
    proof (cases "bad_escape cs")
      case bad: True
      then have "decode_rest (c # cs) out = (False, out)"
        using True by (auto simp: bad_escape_def split: list.split)
      with "2.prems" True bad show ?thesis
        by (intro exI [of _ "[]"] exI [of _ "c # cs"]) (auto intro: enc_end)
    next
      case False
      then obtain h l r' where cs: "cs = h # l # r'" "isxdigit h" "isxdigit l"
        by (auto simp: bad_escape_def)
      with "2.prems" True have "decode_rest r' (out @ [escape h l]) = (b, out')" by simp
      with "2.IH"(1) [OF True cs(1)] cs obtain pre s r where
        "r' = pre @ r" "url_encodes pre s" "out' = (out @ [escape h l]) @ s"
        and r: "if b then r = [] else \<exists>r'. r = CHR ''%'' # r' \<and> bad_escape r'"
        by blast
      then have "c # cs = (c # h # l # pre) @ r" "url_encodes (c # h # l # pre) (escape h l # s)"
        "out' = out @ (escape h l # s)"
        using True cs by (auto intro: enc_escape)
      with r show ?thesis by blast
    qed
  next
    case False
    define d where "d = (if c = CHR ''+'' then SP else c)"
    have "decode_rest cs (out @ [d]) = (b, out')"
      using "2.prems" False by (simp add: d_def split: if_splits)
    with "2.IH"(2,3) False obtain pre s r where
      "cs = pre @ r" "url_encodes pre s" "out' = (out @ [d]) @ s"
      and r: "if b then r = [] else \<exists>r'. r = CHR ''%'' # r' \<and> bad_escape r'"
      unfolding d_def by (cases "c = CHR ''+''") auto
    then have "c # cs = (c # pre) @ r" "url_encodes (c # pre) (d # s)" "out' = out @ (d # s)"
      using False by (auto simp: d_def intro: enc_plus enc_plain)
    with r show ?thesis by blast
  qed
qed

lemma url_decode_True: "url_decode e = (True, s) \<longleftrightarrow> url_encodes e s"
  using decode_rest_encodes [of e s "[]" "[]"] decode_rest_result [of e "[]" True s]
  by (auto simp: url_decode_eq)



lemma url_encodes_length: "url_encodes e s \<Longrightarrow> length s \<le> length e \<and> length e \<le> 3 * length s"
  by (induction rule: url_encodes.induct) auto


subsection \<open>A percent encoder\<close>

text \<open>
  Clients choose what to escape. \<open>percent_encode P\<close> escapes the bytes that \<open>P\<close> does not keep, in
  upper case, and always the two bytes that mean something to the decoder.
\<close>

definition hex_char :: "nat \<Rightarrow> char" where
  "hex_char d = ''0123456789ABCDEF'' ! d"

definition percent_encode :: "(char \<Rightarrow> bool) \<Rightarrow> string \<Rightarrow> string" where
  "percent_encode keep s = concat (map (\<lambda>c.
     if keep c \<and> c \<noteq> CHR ''%'' \<and> c \<noteq> CHR ''+'' then [c]
     else [CHR ''%'', hex_char (of_char c div 16), hex_char (of_char c mod 16)]) s)"

lemma hex_char_digit: "d < 16 \<Longrightarrow> isxdigit (hex_char d) \<and> hex_digit (hex_char d) = int d"
proof -
  have "\<forall>d \<in> set [0..<16]. isxdigit (hex_char d) \<and> hex_digit (hex_char d) = int d"
    by code_simp
  then show "d < 16 \<Longrightarrow> isxdigit (hex_char d) \<and> hex_digit (hex_char d) = int d" by simp
qed

lemma of_char_nibbles: "(of_char c :: nat) div 16 < 16" "(of_char c :: nat) mod 16 < 16"
  using nat_of_char_less_256 [of c] by (simp_all add: div_less_iff_less_mult)

lemma escape_hex_char: "escape (hex_char (of_char c div 16)) (hex_char (of_char c mod 16)) = c"
proof -
  have "int (of_char c div 16) * 16 + int (of_char c mod 16) = int (of_char c)"
    by (metis div_mult_mod_eq of_nat_add of_nat_mult of_nat_numeral)
  then show ?thesis
    by (simp add: escape_def cast_char_def hex_char_digit of_char_nibbles)
qed

lemma percent_encode_encodes: "url_encodes (percent_encode keep s) s"
proof (induction s)
  case Nil
  then show ?case by (simp add: percent_encode_def enc_end)
next
  case (Cons c s)
  show ?case
  proof (cases "keep c \<and> c \<noteq> CHR ''%'' \<and> c \<noteq> CHR ''+''")
    case True
    with Cons show ?thesis by (simp add: percent_encode_def enc_plain)
  next
    case False
    with enc_escape [OF _ _ Cons, of "hex_char (of_char c div 16)" "hex_char (of_char c mod 16)"]
    show ?thesis by (auto simp: percent_encode_def hex_char_digit of_char_nibbles escape_hex_char)
  qed
qed


subsection \<open>Properties\<close>



text \<open>
  Every byte string has an encoding that is decoded to it, whichever bytes
  the client chooses to escape.
\<close>

theorem url_decode_encode: "url_decode (percent_encode keep s) = (True, s)"
  using percent_encode_encodes url_decode_True by blast

end
