(* ===== verification/Filesystem.thy ===== *)
theory Filesystem
  imports F16_Prelude
begin

section \<open>What f16 uses of \<open>std::filesystem\<close>\<close>

text \<open>
  Paths are their native (POSIX) strings. The file system is a parameter: at any moment a function from
  the string that reaches the operating system to what is found there, or to the error that the
  throwing overloads of \<^verbatim>\<open>status\<close> raise. Other programs may change it between two calls of one
  request, so a request is served under a \<open>file_history\<close>: its \<open>n\<close>-th call finds the \<open>n\<close>-th state.

  A \<^verbatim>\<open>path\<close> is handed to the operating system as a C string, so a NUL byte ends it (\<open>c_str\<close>), while
  operations on the \<^verbatim>\<open>path\<close> object itself see all of its bytes.
\<close>

text \<open>
  What is found at a path has, if it can be opened, the bytes that the reads up to the first without data
  bring, whatever happens to it meanwhile: a directory or a device too, which may take the place of a regular file
  just before it is opened. A directory has its entries in the order of \<^verbatim>\<open>directory_iterator\<close>, each with
  the outcome that \<^verbatim>\<open>is_regular_file\<close> has when it is asked, unless the iteration throws.
\<close>

datatype fs_node =
    Missing
  | Regular "string option"
  | Directory "string option" "exn + (string \<times> (exn + bool)) list"
  | Special "string option"

type_synonym filesystem = "string \<Rightarrow> exn + fs_node"

type_synonym file_history = "nat \<Rightarrow> filesystem"

definition c_str :: "string \<Rightarrow> string" where
  "c_str p = takeWhile (\<lambda>c. c \<noteq> NUL) p"

definition fs_exists :: "filesystem \<Rightarrow> string \<Rightarrow> exn + bool" where
  "fs_exists fsys p = andthen (fsys (c_str p)) (\<lambda>n. Inr (n \<noteq> Missing))"

definition fs_is_directory :: "filesystem \<Rightarrow> string \<Rightarrow> exn + bool" where
  "fs_is_directory fsys p =
     andthen (fsys (c_str p)) (\<lambda>n. Inr (case n of Directory b es \<Rightarrow> True | _ \<Rightarrow> False))"

definition fs_is_regular_file :: "filesystem \<Rightarrow> string \<Rightarrow> exn + bool" where
  "fs_is_regular_file fsys p =
     andthen (fsys (c_str p)) (\<lambda>n. Inr (case n of Regular b \<Rightarrow> True | _ \<Rightarrow> False))"

text \<open>Opening a file for reading: \<open>None\<close> is a stream in a failed state.\<close>

definition fs_open :: "filesystem \<Rightarrow> string \<Rightarrow> string option" where
  "fs_open fsys p =
     (case fsys (c_str p) of
        Inr (Regular b) \<Rightarrow> b | Inr (Directory b es) \<Rightarrow> b | Inr (Special b) \<Rightarrow> b | _ \<Rightarrow> None)"

definition fs_directory_entries :: "filesystem \<Rightarrow> string \<Rightarrow> exn + (string \<times> (exn + bool)) list" where
  "fs_directory_entries fsys p =
     (case fsys (c_str p) of Inr (Directory b es) \<Rightarrow> es | _ \<Rightarrow> Inl Filesystem_error)"


subsection \<open>Paths\<close>

definition is_absolute :: "string \<Rightarrow> bool" where
  "is_absolute p \<longleftrightarrow> p \<noteq> [] \<and> hd p = CHR ''/''"

text \<open>\<^verbatim>\<open>a / b\<close>\<close>

definition path_append :: "string \<Rightarrow> string \<Rightarrow> string" where
  "path_append a b =
     (if is_absolute b \<or> a = [] then b
      else if last a \<noteq> CHR ''/'' then a @ CHR ''/'' # b
      else a @ b)"

definition relative_path :: "string \<Rightarrow> string" where
  "relative_path p = dropWhile (\<lambda>c. c = CHR ''/'') p"

definition filename :: "string \<Rightarrow> string" where
  "filename p = rev (takeWhile (\<lambda>c. c \<noteq> CHR ''/'') (rev p))"

definition extension :: "string \<Rightarrow> string" where
  "extension p =
     (let f = filename p;
          e = CHR ''.'' # rev (takeWhile (\<lambda>c. c \<noteq> CHR ''.'') (rev f))
      in if f = ''.'' \<or> f = ''..'' \<or> CHR ''.'' \<notin> set f \<or> length e = length f then [] else e)"

text \<open>The components of a path, between its slashes\<close>

function components :: "string \<Rightarrow> string list" where
  "components p =
     (let c = takeWhile (\<lambda>x. x \<noteq> CHR ''/'') p; r = dropWhile (\<lambda>x. x \<noteq> CHR ''/'') p
      in if r = [] then [c] else c # components (tl r))"
  by pat_completeness auto
termination
proof (relation "measure length", goal_cases)
  case (2 p x y)
  then have "length y \<le> length p" "y \<noteq> []" by (auto simp: length_dropWhile_le simp del: dropWhile_eq_Nil_conv)
  then show ?case by (cases y) auto
qed simp

declare components.simps [simp del]

lemma components_sublist: "c \<in> set (components p) \<Longrightarrow> sublist c p"
proof (induction p rule: components.induct)
  case (1 p)
  let ?c = "takeWhile (\<lambda>x. x \<noteq> CHR ''/'') p" and ?r = "dropWhile (\<lambda>x. x \<noteq> CHR ''/'') p"
  have p: "p = ?c @ ?r" by simp
  show ?case
  proof (cases "c = ?c")
    case True
    with p show ?thesis by (metis prefixI prefix_imp_sublist)
  next
    case False
    with "1.prems" have "?r \<noteq> []" "c \<in> set (components (tl ?r))"
      by (auto simp: components.simps [of p] Let_def split: if_splits)
    with "1.IH" [OF refl refl] have "sublist c (tl ?r)" by blast
    also have "sublist (tl ?r) ?r" by (cases ?r) (auto simp: sublist_Cons_right)
    also have "sublist ?r p" using p by (metis suffixI suffix_imp_sublist)
    finally show ?thesis .
  qed
qed

text \<open>A path below a root: joined to it with a relative path that never goes up\<close>

definition below :: "string \<Rightarrow> string \<Rightarrow> bool" where
  "below root p \<longleftrightarrow>
     (\<exists>rel. p = path_append root rel \<and> \<not> is_absolute rel \<and> ''..'' \<notin> set (components rel))"

lemma belowI: "\<not> is_absolute rel \<Longrightarrow> \<not> sublist ''..'' rel \<Longrightarrow> below root (path_append root rel)"
  by (auto simp: below_def dest: components_sublist)

lemma not_absolute_relative_path [simp]: "\<not> is_absolute (relative_path p)"
  using hd_dropWhile [where P = "\<lambda>c. c = CHR ''/''" and xs = p]
  by (auto simp: is_absolute_def relative_path_def)

lemma path_append_twice:
  "\<not> is_absolute a \<Longrightarrow> \<not> is_absolute b \<Longrightarrow>
     path_append (path_append root a) b = path_append root (path_append a b)"
  by (cases a) (auto simp: path_append_def is_absolute_def)

lemma c_str_path_append:
  "NUL \<notin> set root \<Longrightarrow> \<not> is_absolute rel \<Longrightarrow> c_str (path_append root rel) = path_append root (c_str rel)"
proof -
  assume root: "NUL \<notin> set root" and rel: "\<not> is_absolute rel"
  have "\<not> is_absolute (c_str rel)"
    using rel by (cases rel) (auto simp: is_absolute_def c_str_def)
  moreover have "takeWhile (\<lambda>c. c \<noteq> NUL) (root @ xs) = root @ takeWhile (\<lambda>c. c \<noteq> NUL) xs" for xs
    using root by (intro takeWhile_append2) auto
  ultimately show ?thesis
    using rel by (simp add: path_append_def c_str_def)
qed

lemma sublist_c_str: "\<not> sublist xs p \<Longrightarrow> \<not> sublist xs (c_str p)"
  by (metis c_str_def prefix_imp_sublist sublist_order.order_trans takeWhile_is_prefix)

end
