(* ===== verification/Http_Header.thy ===== *)
theory Http_Header
  imports F16_Prelude
begin

section \<open>Header fields (\<open>src/lib/header.hpp\<close>)\<close>

text \<open>
  The name/value pair that requests and replies share, its text on the wire, and the condition
  under which that text can be read back: neither part breaks the line, and the name ends at its
  colon.
\<close>

record header =
  h_name :: string
  h_value :: string

definition header_text :: "header \<Rightarrow> string" where
  "header_text h = h_name h @ CHR '':'' # SP # h_value h @ CRLF"

text \<open>A header that stays on its line, and whose name ends at its colon\<close>

definition header_ok :: "header \<Rightarrow> bool" where
  "header_ok h \<longleftrightarrow> one_line (h_name h) \<and> CHR '':'' \<notin> set (h_name h) \<and> one_line (h_value h)"

lemma header_text_eq:
  assumes "header_ok h" "header_ok k"
  shows "header_text h @ x = header_text k @ y \<longleftrightarrow> h = k \<and> x = y"
proof -
  have "header_text h @ x = header_text k @ y \<longleftrightarrow>
      h_name h = h_name k \<and> h_value h @ CR # LF # x = h_value k @ CR # LF # y"
    using assms by (simp add: header_text_def header_ok_def cut_at_eq)
  also have "\<dots> \<longleftrightarrow> h_name h = h_name k \<and> h_value h = h_value k \<and> x = y"
    using assms by (simp add: header_ok_def one_line_def cut_at_eq)
  also have "\<dots> \<longleftrightarrow> h = k \<and> x = y" by auto
  finally show ?thesis .
qed

lemma header_text_not_blank: "header_ok h \<Longrightarrow> header_text h @ x \<noteq> CRLF @ y"
  by (cases "h_name h") (auto simp: header_text_def header_ok_def)

end
