(* ===== verification/Http_Request.thy ===== *)
theory Http_Request
  imports Http_Header
begin

section \<open>Requests (\<open>src/lib/http_request.hpp\<close>, \<open>src/lib/request.hpp\<close>)\<close>

text \<open>
  The request as it was parsed, its header look-up, and the request as a handler sees it, with the
  path parameters and the query string.
\<close>

record http_request =
  req_method :: string
  req_uri :: string
  http_version_major :: int
  http_version_minor :: int
  req_headers :: "header list"

text \<open>The value-initialised request of a new connection\<close>

definition empty_request :: http_request where
  "empty_request = \<lparr>req_method = [], req_uri = [], http_version_major = 0,
     http_version_minor = 0, req_headers = []\<rparr>"

text \<open>\<^verbatim>\<open>std::tolower\<close> in the C locale\<close>

definition tolower :: "char \<Rightarrow> char" where
  "tolower c = (let b = of_char c :: nat in if 65 \<le> b \<and> b \<le> 90 then char_of (b + 32) else c)"

definition get_header :: "http_request \<Rightarrow> string \<Rightarrow> string" where
  "get_header r name =
     (case List.find (\<lambda>h. map tolower (h_name h) = name) (req_headers r) of
        Some h \<Rightarrow> h_value h
      | None \<Rightarrow> [])"

record request =
  orig_request :: http_request
  resources :: params
  querystring :: params

definition new_request :: "http_request \<Rightarrow> request" where
  "new_request r = \<lparr>orig_request = r, resources = Map.empty, querystring = Map.empty\<rparr>"

definition add_queryvalue :: "string \<Rightarrow> string \<Rightarrow> request \<Rightarrow> request" where
  "add_queryvalue key val q = q\<lparr>querystring := (querystring q)(key \<mapsto> val)\<rparr>"

definition resource :: "request \<Rightarrow> string \<Rightarrow> string" where
  "resource q key = (case resources q key of Some v \<Rightarrow> v | None \<Rightarrow> [])"

definition query :: "request \<Rightarrow> string \<Rightarrow> string" where
  "query q key = (case querystring q key of Some v \<Rightarrow> v | None \<Rightarrow> [])"


subsection \<open>Look-up\<close>

lemma tolower_idem [simp]: "tolower (tolower c) = tolower c"
proof (cases "65 \<le> (of_char c :: nat) \<and> of_char c \<le> (90 :: nat)")
  case True
  then have "(of_char c :: nat) + 32 < 256" by simp
  then have "(of_char (tolower c) :: nat) = of_char c + 32"
    using True by (simp add: tolower_def Let_def)
  then show ?thesis using True by (simp add: tolower_def [of "tolower c"] Let_def)
next
  case False
  then have "tolower c = c" by (auto simp: tolower_def Let_def)
  then show ?thesis by simp
qed

lemma map_tolower_idem [simp]: "map tolower (map tolower s) = map tolower s"
  by (induction s) simp_all

text \<open>The look-up compares a lower-cased name with what it is given, as it is given.\<close>

lemma get_header_first:
  "req_headers r = pre @ h # post \<Longrightarrow> \<forall>k \<in> set pre. map tolower (h_name k) \<noteq> map tolower name \<Longrightarrow>
     map tolower (h_name h) = map tolower name \<Longrightarrow> get_header r (map tolower name) = h_value h"
  by (simp add: get_header_def find_first)

lemma get_header_absent:
  "\<forall>k \<in> set (req_headers r). map tolower (h_name k) \<noteq> name \<Longrightarrow> get_header r name = []"
  by (auto simp: get_header_def find_None_iff [THEN iffD2] split: option.split)

lemma get_header_upper: "map tolower name \<noteq> name \<Longrightarrow> get_header r name = []"
  by (rule get_header_absent) (metis map_tolower_idem)

lemma get_header_cases:
  "get_header r name = [] \<or> (\<exists>h \<in> set (req_headers r). get_header r name = h_value h)"
  by (auto simp: get_header_def find_Some_iff split: option.split)

lemma get_header_case_insensitive:
  "map (\<lambda>h. (map tolower (h_name h), h_value h)) (req_headers r) =
     map (\<lambda>h. (map tolower (h_name h), h_value h)) (req_headers q) \<Longrightarrow>
   get_header r name = get_header q name"
proof -
  have *: "map_option h_value (List.find (\<lambda>h. map tolower (h_name h) = name) hs) =
      map_option h_value (List.find (\<lambda>h. map tolower (h_name h) = name) ks)"
    if "map (\<lambda>h. (map tolower (h_name h), h_value h)) hs =
      map (\<lambda>h. (map tolower (h_name h), h_value h)) ks" for hs ks
    using that
  proof (induction hs arbitrary: ks)
    case (Cons h hs)
    then show ?case by (cases ks) auto
  qed simp
  have get: "get_header r name = (case map_option h_value
      (List.find (\<lambda>h. map tolower (h_name h) = name) (req_headers r)) of
      Some v \<Rightarrow> v | None \<Rightarrow> [])" for r
    by (auto simp: get_header_def split: option.split)
  assume "map (\<lambda>h. (map tolower (h_name h), h_value h)) (req_headers r) =
     map (\<lambda>h. (map tolower (h_name h), h_value h)) (req_headers q)"
  from * [OF this] show "get_header r name = get_header q name"
    unfolding get [of r] get [of q] by simp
qed

lemma query_add: "query (add_queryvalue k v q) k' = (if k' = k then v else query q k')"
  by (simp add: query_def add_queryvalue_def)


subsection \<open>Properties\<close>

text \<open>
  Asked for a lower-case name, the look-up returns the value of the
  first header with that name, however the client wrote it.
\<close>

theorem get_header_finds_first:
  assumes "req_headers r = pre @ h # post" "map tolower (h_name h) = map tolower name"
    and "\<And>k. k \<in> set pre \<Longrightarrow> map tolower (h_name k) \<noteq> map tolower name"
  shows "get_header r (map tolower name) = h_value h"
  using get_header_first [OF assms(1) _ assms(2)] assms(3) by blast

theorem get_header_finds_first_witness:
  "get_header (empty_request\<lparr>req_headers := [\<lparr>h_name = ''Accept'', h_value = ''x''\<rparr>,
       \<lparr>h_name = ''HOST'', h_value = ''a''\<rparr>, \<lparr>h_name = ''Host'', h_value = ''b''\<rparr>]\<rparr>)
     (map tolower ''hoSt'') = ''a''"
proof -
  have "map tolower ''HOST'' = map tolower ''hoSt''" "map tolower ''Accept'' \<noteq> map tolower ''hoSt''"
    by code_simp+
  then show ?thesis
    by (intro get_header_finds_first [where pre = "[\<lparr>h_name = ''Accept'', h_value = ''x''\<rparr>]" and
          h = "\<lparr>h_name = ''HOST'', h_value = ''a''\<rparr>" and post = "[\<lparr>h_name = ''Host'', h_value = ''b''\<rparr>]",
          THEN trans]) simp_all
qed

end
