(* ===== verification/Http_Reply.thy ===== *)
theory Http_Reply
  imports Http_Header
begin

section \<open>Replies (\<open>src/lib/reply.cpp\<close>, \<open>src/lib/reply.hpp\<close>)\<close>

text \<open>
  The reply that is sent to a client, the stock replies, and its serialisation.
  \<open>no_status\<close> stands for a value of \<^verbatim>\<open>status_type\<close> that none of its enumerators names, such as
  the zero that the initialiser \<^verbatim>\<open>reply_{}\<close> of a connection leaves there: the \<^verbatim>\<open>default\<close> branches
  of the two \<^verbatim>\<open>switch\<close> statements are reachable through it.
\<close>

datatype status_type =
    ok
  | created
  | accepted
  | no_content
  | multiple_choices
  | moved_permanently
  | moved_temporarily
  | not_modified
  | bad_request
  | unauthorized
  | forbidden
  | not_found
  | internal_server_error
  | not_implemented
  | bad_gateway
  | service_unavailable
  | gateway_timeout
  | http_version_not_supported
  | no_status

fun status_code :: "status_type \<Rightarrow> nat" where
  "status_code ok = 200"
| "status_code created = 201"
| "status_code accepted = 202"
| "status_code no_content = 204"
| "status_code multiple_choices = 300"
| "status_code moved_permanently = 301"
| "status_code moved_temporarily = 302"
| "status_code not_modified = 304"
| "status_code bad_request = 400"
| "status_code unauthorized = 401"
| "status_code forbidden = 403"
| "status_code not_found = 404"
| "status_code internal_server_error = 500"
| "status_code not_implemented = 501"
| "status_code bad_gateway = 502"
| "status_code service_unavailable = 503"
| "status_code gateway_timeout = 504"
| "status_code http_version_not_supported = 505"
| "status_code no_status = 0"

record reply =
  status :: status_type
  rep_headers :: "header list"
  content :: string

text \<open>An enumerator compares as its value does.\<close>

lemma status_code_inj: "status_code s = status_code t \<longleftrightarrow> s = t"
  by (cases s; cases t) simp_all

instantiation status_type :: linorder
begin

definition less_eq_status_type :: "status_type \<Rightarrow> status_type \<Rightarrow> bool" where
  "s \<le> t \<longleftrightarrow> status_code s \<le> status_code t"

definition less_status_type :: "status_type \<Rightarrow> status_type \<Rightarrow> bool" where
  "s < t \<longleftrightarrow> status_code s < status_code t"

instance
  by standard (auto simp: less_eq_status_type_def less_status_type_def status_code_inj)

end

text \<open>\<^verbatim>\<open>status_strings::to_buffer\<close>\<close>

fun status_line :: "status_type \<Rightarrow> string" where
  "status_line ok = ''HTTP/1.0 200 OK'' @ CRLF"
| "status_line created = ''HTTP/1.0 201 Created'' @ CRLF"
| "status_line accepted = ''HTTP/1.0 202 Accepted'' @ CRLF"
| "status_line no_content = ''HTTP/1.0 204 No Content'' @ CRLF"
| "status_line multiple_choices = ''HTTP/1.0 300 Multiple Choices'' @ CRLF"
| "status_line moved_permanently = ''HTTP/1.0 301 Moved Permanently'' @ CRLF"
| "status_line moved_temporarily = ''HTTP/1.0 302 Moved Temporarily'' @ CRLF"
| "status_line not_modified = ''HTTP/1.0 304 Not Modified'' @ CRLF"
| "status_line bad_request = ''HTTP/1.0 400 Bad Request'' @ CRLF"
| "status_line unauthorized = ''HTTP/1.0 401 Unauthorized'' @ CRLF"
| "status_line forbidden = ''HTTP/1.0 403 Forbidden'' @ CRLF"
| "status_line not_found = ''HTTP/1.0 404 Not Found'' @ CRLF"
| "status_line internal_server_error = ''HTTP/1.0 500 Internal Server Error'' @ CRLF"
| "status_line not_implemented = ''HTTP/1.0 501 Not Implemented'' @ CRLF"
| "status_line bad_gateway = ''HTTP/1.0 502 Bad Gateway'' @ CRLF"
| "status_line service_unavailable = ''HTTP/1.0 503 Service Unavailable'' @ CRLF"
| "status_line gateway_timeout = ''HTTP/1.0 504 Gateway Timeout'' @ CRLF"
| "status_line http_version_not_supported = ''HTTP/1.0 505 HTTP Version Not Supported'' @ CRLF"
| "status_line no_status = ''HTTP/1.0 500 Internal Server Error'' @ CRLF"

definition name_value_separator :: string where "name_value_separator = '': ''"

text \<open>\<^verbatim>\<open>reply::to_buffers\<close>: the buffers, each with the bytes it refers to\<close>

definition to_buffers :: "reply \<Rightarrow> string list" where
  "to_buffers r =
     status_line (status r) #
     concat (map (\<lambda>h. [h_name h, name_value_separator, h_value h, CRLF]) (rep_headers r)) @
     [CRLF, content r]"

text \<open>\<^verbatim>\<open>asio::async_write\<close> sends the buffers one after the other.\<close>

definition wire :: "reply \<Rightarrow> string" where
  "wire r = concat (to_buffers r)"

text \<open>\<^verbatim>\<open>stock_replies::to_string\<close>; the last two statuses that have a text of their own in the code
  are not in its \<^verbatim>\<open>switch\<close> and fall to the \<^verbatim>\<open>default\<close>\<close>

definition stock_page :: "string \<Rightarrow> string \<Rightarrow> string" where
  "stock_page title heading =
     ''<html>'' @ ''<head><title>'' @ title @ ''</title></head>'' @
     ''<body><h1>'' @ heading @ ''</h1></body>'' @ ''</html>''"

fun stock_content :: "status_type \<Rightarrow> string" where
  "stock_content ok = ''''"
| "stock_content created = stock_page ''Created'' ''201 Created''"
| "stock_content accepted = stock_page ''Accepted'' ''202 Accepted''"
| "stock_content no_content = stock_page ''No Content'' ''204 Content''"
| "stock_content multiple_choices = stock_page ''Multiple Choices'' ''300 Multiple Choices''"
| "stock_content moved_permanently = stock_page ''Moved Permanently'' ''301 Moved Permanently''"
| "stock_content moved_temporarily = stock_page ''Moved Temporarily'' ''302 Moved Temporarily''"
| "stock_content not_modified = stock_page ''Not Modified'' ''304 Not Modified''"
| "stock_content bad_request = stock_page ''Bad Request'' ''400 Bad Request''"
| "stock_content unauthorized = stock_page ''Unauthorized'' ''401 Unauthorized''"
| "stock_content forbidden = stock_page ''Forbidden'' ''403 Forbidden''"
| "stock_content not_found = stock_page ''Not Found'' ''404 Not Found''"
| "stock_content internal_server_error =
     stock_page ''Internal Server Error'' ''500 Internal Server Error''"
| "stock_content not_implemented = stock_page ''Not Implemented'' ''501 Not Implemented''"
| "stock_content bad_gateway = stock_page ''Bad Gateway'' ''502 Bad Gateway''"
| "stock_content service_unavailable =
     stock_page ''Service Unavailable'' ''503 Service Unavailable''"
| "stock_content _ = stock_page ''Internal Server Error'' ''500 Internal Server Error''"

definition stock_reply :: "status_type \<Rightarrow> reply" where
  "stock_reply st =
     (let c = stock_content st in
      \<lparr>status = st,
       rep_headers = [\<lparr>h_name = ''Content-Length'', h_value = to_string (length c)\<rparr>,
                      \<lparr>h_name = ''Content-Type'', h_value = ''text/html''\<rparr>],
       content = c\<rparr>)"

definition status_map :: "(string \<times> status_type) list" where
  "status_map =
    [(''ok'', ok),
     (''created'', created),
     (''accepted'', accepted),
     (''no_content'', no_content),
     (''multiple_choices'', multiple_choices),
     (''moved_permanently'', moved_permanently),
     (''moved_temporarily'', moved_temporarily),
     (''not_modified'', not_modified),
     (''bad_request'', bad_request),
     (''unauthorized'', unauthorized),
     (''forbidden'', forbidden),
     (''not_found'', not_found),
     (''internal_server_error'', internal_server_error),
     (''not_implemented'', not_implemented),
     (''bad_gateway'', bad_gateway),
     (''service_unavailable'', service_unavailable),
     (''gateway_timeout'', gateway_timeout),
     (''http_version_not_supported'', http_version_not_supported)]"

definition status_from_string :: "string \<Rightarrow> exn + status_type" where
  "status_from_string s =
     (case map_of status_map s of
        Some st \<Rightarrow> Inr st
      | None \<Rightarrow> Inl (Invalid_argument (''Unknown status: '' @ s)))"



subsection \<open>The status line\<close>

lemma status_line_form:
  "\<exists>t. status_line st = ''HTTP/1.0 '' @ t @ CRLF \<and> one_line t"
  by (cases st) simp_all

lemma status_line_code:
  "st \<noteq> no_status \<Longrightarrow> substr (status_line st) 9 3 = to_string (status_code st)"
  by (cases st; simp add: substr_def to_string.simps digit_char_def; code_simp)

lemma status_line_inj:
  "s \<noteq> no_status \<Longrightarrow> t \<noteq> no_status \<Longrightarrow> status_line s = status_line t \<longleftrightarrow> s = t"
  by (metis status_line_code status_code_inj to_string_inj)


subsection \<open>Serialisation\<close>

lemma wire_eq:
  "wire r = status_line (status r) @ concat (map header_text (rep_headers r)) @ CRLF @ content r"
proof -
  have "concat (concat (map (\<lambda>h. [h_name h, name_value_separator, h_value h, CRLF]) hs)) =
      concat (map header_text hs)" for hs
    by (induction hs) (simp_all add: header_text_def name_value_separator_def)
  then show ?thesis by (simp add: wire_def to_buffers_def)
qed

definition headers_ok :: "reply \<Rightarrow> bool" where
  "headers_ok r \<longleftrightarrow> (\<forall>h \<in> set (rep_headers r). header_ok h)"

lemma headers_text_inj:
  "\<forall>h \<in> set hs. header_ok h \<Longrightarrow> \<forall>h \<in> set ks. header_ok h \<Longrightarrow>
     concat (map header_text hs) @ CRLF @ x = concat (map header_text ks) @ CRLF @ y \<Longrightarrow>
     hs = ks \<and> x = y"
proof (induction hs arbitrary: ks)
  case Nil
  then show ?case
    using header_text_not_blank by (cases ks) (auto, metis append_Cons append_Nil)
next
  case (Cons h hs)
  then show ?case
  proof (cases ks)
    case Nil
    with Cons.prems header_text_not_blank [of h] show ?thesis by simp
  next
    case ks: (Cons k ks')
    with Cons.prems have "h = k \<and> concat (map header_text hs) @ CRLF @ x =
        concat (map header_text ks') @ CRLF @ y"
      by (simp add: header_text_eq del: append_Cons)
    with Cons.IH [of ks'] Cons.prems ks show ?thesis by simp
  qed
qed

lemma wire_inj:
  assumes "headers_ok r" "headers_ok s" "status r \<noteq> no_status" "status s \<noteq> no_status"
    and "wire r = wire s"
  shows "r = s"
proof -
  obtain t where t: "status_line (status r) = ''HTTP/1.0 '' @ t @ CRLF" "one_line t"
    using status_line_form by blast
  obtain u where u: "status_line (status s) = ''HTTP/1.0 '' @ u @ CRLF" "one_line u"
    using status_line_form by blast
  let ?R = "concat (map header_text (rep_headers r)) @ CRLF @ content r"
  let ?S = "concat (map header_text (rep_headers s)) @ CRLF @ content s"
  have "t @ CR # LF # ?R = u @ CR # LF # ?S"
    using assms(5) t u by (simp add: wire_eq)
  then have "t = u" and "?R = ?S"
    using t u by (simp_all add: one_line_def cut_at_eq)
  with t u have "status r = status s" using assms(3,4) status_line_inj by metis
  moreover have "rep_headers r = rep_headers s \<and> content r = content s"
    using headers_text_inj \<open>?R = ?S\<close> assms(1,2) unfolding headers_ok_def by blast
  ultimately show ?thesis by simp
qed


subsection \<open>Framing\<close>

text \<open>The values a reply gives for one header name\<close>

definition header_values :: "string \<Rightarrow> reply \<Rightarrow> string list" where
  "header_values n r = map h_value (filter (\<lambda>h. h_name h = n) (rep_headers r))"

text \<open>The reply announces the length of the body it is sent with, once.\<close>

definition framed :: "reply \<Rightarrow> bool" where
  "framed r \<longleftrightarrow> header_values ''Content-Length'' r = [to_string (length (content r))]"

lemma stock_reply_simps [simp]:
  "status (stock_reply st) = st"
  "content (stock_reply st) = stock_content st"
  by (simp_all add: stock_reply_def Let_def)

lemma framed_stock_reply [simp]: "framed (stock_reply st)"
  by (simp add: framed_def header_values_def stock_reply_def Let_def)

lemma headers_ok_stock_reply [simp]: "headers_ok (stock_reply st)"
  by (simp add: headers_ok_def header_ok_def stock_reply_def Let_def)

lemma status_map_graph:
  "set status_map = {(s, st). map_of status_map s = Some st}"
proof -
  have "distinct (map fst status_map)" by code_simp
  then show ?thesis by auto
qed

lemma status_from_string_Inr:
  "status_from_string s = Inr st \<longleftrightarrow> (s, st) \<in> set status_map"
  by (auto simp: status_map_graph status_from_string_def split: option.split)

lemma status_map_covers: "st \<noteq> no_status \<Longrightarrow> \<exists>!s. (s, st) \<in> set status_map"
  by (cases st) (simp_all add: status_map_def)


lemma status_map_names: "st \<noteq> no_status \<Longrightarrow> \<exists>!s. status_from_string s = Inr st"
  by (simp add: status_from_string_Inr status_map_covers)

text \<open>The two statuses whose page is missing in \<^verbatim>\<open>stock_replies::to_string\<close>\<close>

lemma missing_pages:
  "stock_content gateway_timeout = stock_content internal_server_error"
  "stock_content http_version_not_supported = stock_content internal_server_error"
  by simp_all


subsection \<open>Properties\<close>

text \<open>
  C27 (wire_determines_reply): the bytes on the wire determine the reply: replies whose headers stay
  on their lines have the same serialisation only if status, headers and body are the same.
\<close>

theorem wire_determines_reply:
  assumes "headers_ok r" "headers_ok s" "status r \<noteq> no_status" "status s \<noteq> no_status"
  shows "wire r = wire s \<longleftrightarrow> r = s"
  using wire_inj [OF assms] by blast

theorem wire_determines_reply_witness:
  "wire (stock_reply bad_gateway) \<noteq> wire (stock_reply service_unavailable)"
  using wire_determines_reply [of "stock_reply bad_gateway" "stock_reply service_unavailable"]
  by (simp add: stock_reply_def Let_def headers_ok_def header_ok_def)

text \<open>
  Every status can be named in a configuration file, in one way, and a name that
  is no status is an exception.
\<close>

theorem status_names:
  assumes "st \<noteq> no_status" "\<And>st. (name, st) \<notin> set status_map"
  shows "(\<exists>!s. status_from_string s = Inr st) \<and>
    status_from_string name = Inl (Invalid_argument (''Unknown status: '' @ name))"
proof -
  have "map_of status_map name = None"
    using assms(2) by (cases "map_of status_map name") (auto dest: map_of_SomeD)
  with status_map_names [OF assms(1)] show ?thesis by (simp add: status_from_string_def)
qed

theorem status_names_witness:
  "(\<exists>!s. status_from_string s = Inr not_found) \<and>
    status_from_string ''teapot'' = Inl (Invalid_argument (''Unknown status: '' @ ''teapot''))"
  using status_names [of not_found "''teapot''"] by (simp add: status_map_def)

text \<open>
  The page of a stock reply names its own status code, for every
  status that has a page in the code.
\<close>

theorem stock_page_names_status:
  assumes "st \<notin> {ok, gateway_timeout, http_version_not_supported, no_status}"
  shows "sublist (''<h1>'' @ to_string (status_code st)) (content (stock_reply st))"
proof -
  have "\<forall>st \<in> set [created, accepted, no_content, multiple_choices, moved_permanently,
      moved_temporarily, not_modified, bad_request, unauthorized, forbidden, not_found,
      internal_server_error, not_implemented, bad_gateway, service_unavailable].
      find_str (''<h1>'' @ substr (status_line st) 9 3) (stock_content st) \<noteq> None"
    by code_simp
  then have s: "find_str (''<h1>'' @ substr (status_line st) 9 3) (stock_content st) \<noteq> None"
    using assms by (cases st) (simp_all only: list.set insert_iff simp_thms ball_simps)
  from assms have "substr (status_line st) 9 3 = to_string (status_code st)"
    by (intro status_line_code) simp
  with s show ?thesis by (simp add: find_str_None_iff)
qed

theorem stock_page_names_status_witness:
  "sublist (''<h1>'' @ to_string 404) (content (stock_reply not_found))"
  using stock_page_names_status [of not_found] by simp

end
