(* ===== verification/Mime_Types.thy ===== *)
theory Mime_Types
  imports F16_Prelude
begin

section \<open>MIME types (\<open>src/lib/mime_types.cpp\<close>)\<close>

text \<open>The constant table of extensions and the total look-up on it.\<close>

definition mime_mappings :: "(string \<times> string) list" where
  "mime_mappings =
    [(''.gif'', ''image/gif''),
     (''.htm'', ''text/html''),
     (''.html'', ''text/html''),
     (''.jpg'', ''image/jpeg''),
     (''.png'', ''image/png''),
     (''.txt'', ''text/plain''),
     (''.css'', ''text/css''),
     (''.js'', ''application/javascript''),
     (''.json'', ''application/json''),
     (''.xml'', ''application/xml''),
     (''.pdf'', ''application/pdf''),
     (''.zip'', ''application/zip''),
     (''.tar'', ''application/x-tar''),
     (''.gz'', ''application/gzip''),
     (''.mp3'', ''audio/mpeg''),
     (''.mp4'', ''video/mp4''),
     (''.webm'', ''video/webm'')]"

definition extension_to_type :: "string \<Rightarrow> string" where
  "extension_to_type extension =
     (case map_of mime_mappings extension of Some t \<Rightarrow> t | None \<Rightarrow> ''text/plain'')"

text \<open>The bytes a media type may hold in a header: visible ASCII\<close>

definition printable :: "string \<Rightarrow> bool" where
  "printable s \<longleftrightarrow> (\<forall>c \<in> set s. 32 \<le> char_int c \<and> char_int c < 127)"

lemma mime_mappings_printable:
  "\<forall>t \<in> set (map snd mime_mappings). printable t \<and> t \<noteq> []"
  by code_simp

lemma mime_mappings_distinct: "distinct (map fst mime_mappings)"
  by code_simp

lemma extension_to_type_cases:
  "extension_to_type e = ''text/plain'' \<or> (e, extension_to_type e) \<in> set mime_mappings"
  by (auto simp: extension_to_type_def dest: map_of_SomeD split: option.split)

lemma extension_to_type_printable: "printable (extension_to_type e) \<and> extension_to_type e \<noteq> []"
proof -
  have "printable ''text/plain''" by code_simp
  then show ?thesis
    using extension_to_type_cases [of e] mime_mappings_printable by force
qed

lemma printable_one_line: "printable s \<Longrightarrow> one_line s"
  by (rule one_line_range) (force simp: printable_def)

lemma one_line_extension_to_type [simp]: "one_line (extension_to_type e)"
  by (simp add: extension_to_type_printable printable_one_line)

end
