(* ===== verification/Static_Content.thy ===== *)
theory Static_Content
  imports Filesystem Http_Request Http_Reply Mime_Types
begin

section \<open>Static content (\<open>src/lib/static_content.cpp\<close>)\<close>

text \<open>
  The resource that serves a directory of the file system: \<^verbatim>\<open>serve_if_match\<close> with its two private
  helpers \<^verbatim>\<open>list_directory\<close> and \<^verbatim>\<open>serve_file\<close>. The object is its \<^verbatim>\<open>doc_root\<close>. A function that fills
  a reply takes the reply and returns it; \<open>Inl\<close> is an exception that leaves the function. The calls on
  the file system are numbered in the order in which one request makes them.
\<close>

text \<open>
  The loop of \<^verbatim>\<open>serve_file\<close>: reads of at most 512 bytes appended to the content until a read gets
  none. \<open>rest\<close> is what is left of the file.
\<close>

function read_loop :: "string \<Rightarrow> string \<Rightarrow> string" where
  "read_loop rest acc =
     (let gcount = min 512 (length rest) in
      if gcount > 0 then read_loop (drop gcount rest) (acc @ take gcount rest) else acc)"
  by pat_completeness auto
termination
  by (relation "measure (\<lambda>(rest, acc). length rest)") auto

declare read_loop.simps [simp del]

text \<open>
  The same loop on a file that is written to while it is read: \<open>reads j\<close> is what the \<open>j\<close>-th read would get, and
  a read that gets less than the buffer leaves the stream in a failed state, so the next gets nothing. The loop may
  run for ever, which is \<open>None\<close>.
\<close>

partial_function (option) read_changing :: "(nat \<Rightarrow> string) \<Rightarrow> nat \<Rightarrow> bool \<Rightarrow> string \<Rightarrow> string option" where
  "read_changing reads j is_good acc =
     (let buf = (if is_good then take 512 (reads j) else []) in
      if length buf > 0 then read_changing reads (Suc j) (length buf = 512) (acc @ buf) else Some acc)"

declare read_changing.simps [code]

text \<open>The two headers that every generated body gets\<close>

definition body_headers :: "string \<Rightarrow> string \<Rightarrow> header list" where
  "body_headers body ctype =
     [\<lparr>h_name = ''Content-Length'', h_value = to_string (length body)\<rparr>,
      \<lparr>h_name = ''Content-Type'', h_value = ctype\<rparr>]"

definition serve_file :: "file_history \<Rightarrow> nat \<Rightarrow> string \<Rightarrow> reply \<Rightarrow> exn + reply" where
  "serve_file fsys t full_path rep =
     andthen (fs_exists (fsys t) full_path) (\<lambda>ex.
       if \<not> ex then Inr (stock_reply not_found)
       else andthen (fs_is_regular_file (fsys (t + 1)) full_path) (\<lambda>reg.
         if \<not> reg then Inr (stock_reply forbidden)
         else case fs_open (fsys (t + 2)) full_path of
             None \<Rightarrow> Inr (stock_reply not_found)
           | Some bytes \<Rightarrow>
               (let c = read_loop bytes (content rep) in
                Inr (rep\<lparr>status := ok,
                         content := c,
                         rep_headers := body_headers c (extension_to_type (extension full_path))\<rparr>))))"

definition listing_head :: string where
  "listing_head =
     ''<!DOCTYPE html>'' @ CRLF @ ''<html>'' @ CRLF @
     ''<head><title>Directory listing</title></head>'' @ CRLF @ ''<body>'' @ CRLF"

definition listing_tail :: string where
  "listing_tail = ''</body>'' @ CRLF @ ''</html> '' @ CRLF"

definition listing_entry :: "string \<Rightarrow> string" where
  "listing_entry name =
     ''<a href='' @ [CHR 0x22] @ name @ [CHR 0x22] @ ''>'' @ name @ ''</a><br>'' @ CRLF"

fun list_entries :: "(string \<times> (exn + bool)) list \<Rightarrow> string \<Rightarrow> exn + string" where
  "list_entries [] ss = Inr ss"
| "list_entries ((name, reg) # es) ss =
     andthen reg (\<lambda>b. if \<not> b then list_entries es ss else list_entries es (ss @ listing_entry name))"

definition list_directory :: "filesystem \<Rightarrow> string \<Rightarrow> reply \<Rightarrow> reply" where
  "list_directory fsys full_path rep =
     (case andthen (fs_directory_entries fsys full_path) (\<lambda>es. list_entries es listing_head) of
        Inl e \<Rightarrow> stock_reply not_found
      | Inr ss \<Rightarrow>
          (let c = ss @ listing_tail in
           rep\<lparr>status := ok, content := c,
               rep_headers := body_headers c (extension_to_type ''.html'')\<rparr>))"

text \<open>The body of \<^verbatim>\<open>serve_if_match\<close> for a path that matches: \<open>uri\<close> is the URI of the request\<close>

definition static_reply :: "file_history \<Rightarrow> string \<Rightarrow> string \<Rightarrow> reply \<Rightarrow> exn + reply" where
  "static_reply fsys request_path uri rep =
     andthen (fs_is_directory (fsys 0) request_path) (\<lambda>dir.
       if dir then
         (let index_path = path_append request_path ''index.html'' in
          andthen (fs_exists (fsys 1) index_path) (\<lambda>ex.
            if ex then serve_file fsys 2 index_path rep
            else if uri \<noteq> [] \<and> last uri = CHR ''/'' then
              Inr (list_directory (fsys 2) request_path rep)
            else
              (let rep' = stock_reply moved_permanently in
               Inr (rep'\<lparr>rep_headers := rep_headers rep' @
                 [\<lparr>h_name = ''Location'', h_value = uri @ ''/''\<rparr>]\<rparr>))))
       else serve_file fsys 1 request_path rep)"

definition serve_static :: "file_history \<Rightarrow> string \<Rightarrow> string \<Rightarrow> string \<Rightarrow> http_request \<Rightarrow> reply \<Rightarrow>
    exn + bool \<times> reply" where
  "serve_static fsys doc_root loc path req rep =
     (if \<not> prefix loc path then Inr (False, rep)
      else
        (let resource_path = drop (length loc) path;
             request_path = path_append doc_root (relative_path resource_path) in
         andthen (static_reply fsys request_path (req_uri req) rep)
           (\<lambda>rep'. Inr (True, if req_method req = ''HEAD'' then rep'\<lparr>content := []\<rparr> else rep'))))"


subsection \<open>Reading a file\<close>

lemma read_loop_eq: "read_loop rest acc = acc @ rest"
proof (induction rest acc rule: read_loop.induct)
  case (1 rest acc)
  show ?case
  proof (cases rest)
    case Nil
    then show ?thesis by (simp add: read_loop.simps [of "[]"])
  next
    case (Cons b bs)
    then have "0 < min 512 (length rest)" by simp
    then show ?thesis
      using "1.IH" [OF refl] by (simp add: read_loop.simps [of rest acc] Let_def del: take_Suc_Cons)
  qed
qed

text \<open>
  The loop ends with the first read that does not fill the buffer, and then it has appended what all reads got. It runs
  for ever on a file that always has another block.
\<close>

lemma read_changing_step:
  "length (reads j) \<ge> 512 \<Longrightarrow> read_changing reads j True acc = read_changing reads (Suc j) True (acc @ take 512 (reads j))"
  by (subst read_changing.simps) (auto simp: Let_def)

lemma read_changing_last:
  "length (reads j) < 512 \<Longrightarrow> read_changing reads j True acc = Some (acc @ reads j)"
  by (subst read_changing.simps) (simp add: Let_def read_changing.simps [of _ _ False])

lemma read_changing_Some:
  assumes "\<And>i. i < n \<Longrightarrow> length (reads (j + i)) \<ge> 512" "length (reads (j + n)) < 512"
  shows "read_changing reads j True acc = Some (acc @ concat (map (\<lambda>i. take 512 (reads (j + i))) [0..<Suc n]))"
  using assms
proof (induction n arbitrary: j acc)
  case 0
  then show ?case by (simp add: read_changing_last)
next
  case (Suc n)
  have "read_changing reads j True acc = read_changing reads (Suc j) True (acc @ take 512 (reads j))"
    using Suc.prems(1) [of 0] by (intro read_changing_step) simp
  also have "\<dots> = Some ((acc @ take 512 (reads j)) @ concat (map (\<lambda>i. take 512 (reads (Suc j + i))) [0..<Suc n]))"
  proof (rule Suc.IH)
    show "length (reads (Suc j + i)) \<ge> 512" if "i < n" for i
      using Suc.prems(1) [of "Suc i"] that by simp
  qed (use Suc.prems(2) in simp)
  also have "map (\<lambda>i. take 512 (reads (Suc j + i))) [0..<Suc n] = map (\<lambda>i. take 512 (reads (j + i))) [1..<Suc (Suc n)]"
    by (simp add: map_Suc_upt [symmetric] del: upt_Suc)
  finally show ?case by (simp add: upt_conv_Cons del: upt_Suc)
qed

lemma read_changing_ends:
  assumes "read_changing reads j is_good acc = Some out"
  shows "is_good \<longrightarrow> (\<exists>i \<ge> j. length (reads i) < 512)"
proof (rule read_changing.raw_induct [where P = "\<lambda>reads j is_good acc out. is_good \<longrightarrow> (\<exists>i \<ge> j. length (reads i) < 512)",
      OF _ assms], rule impI, goal_cases)
  case (1 f reads j is_good acc out)
  show ?case
  proof (cases "length (reads j) < 512")
    case False
    with 1(2,3) have "f reads (Suc j) True (acc @ take 512 (reads j)) = Some out"
      by (auto simp: Let_def split: if_splits)
    from 1(1) [OF this] show ?thesis using Suc_leD by blast
  qed blast
qed

lemma read_changing_returns:
  "(\<exists>out. read_changing reads j True acc = Some out) \<longleftrightarrow> (\<exists>i \<ge> j. length (reads i) < 512)"
proof
  assume "\<exists>i \<ge> j. length (reads i) < 512"
  then have "\<exists>n. length (reads (j + n)) < 512" by (metis le_Suc_ex)
  then obtain n where n: "length (reads (j + n)) < 512" "\<And>i. i < n \<Longrightarrow> \<not> length (reads (j + i)) < 512"
    using exists_least_iff [of "\<lambda>n. length (reads (j + n)) < 512"] by blast
  have "read_changing reads j True acc = Some (acc @ concat (map (\<lambda>i. take 512 (reads (j + i))) [0..<Suc n]))"
    using n by (intro read_changing_Some) (auto simp: not_less)
  then show "\<exists>out. read_changing reads j True acc = Some out" by blast
qed (use read_changing_ends in blast)

lemma growing_file_never_ends:
  "(\<And>i. 512 \<le> length (reads i)) \<Longrightarrow> read_changing reads 0 True acc = None"
  using read_changing_returns [of reads 0 acc] by (metis not_less option.exhaust)

text \<open>On a file that nobody writes to it is the loop above.\<close>

lemma read_changing_unchanged:
  "read_changing (\<lambda>i. take 512 (drop (512 * i) bytes)) j True acc = Some (acc @ drop (512 * j) bytes)"
proof (induction "length bytes - 512 * j" arbitrary: j acc rule: less_induct)
  case less
  let ?reads = "\<lambda>i. take 512 (drop (512 * i) bytes)"
  show ?case
  proof (cases "512 \<le> length bytes - 512 * j")
    case True
    then have "read_changing ?reads j True acc = read_changing ?reads (Suc j) True (acc @ take 512 (?reads j))"
      by (intro read_changing_step) simp
    also have "\<dots> = Some ((acc @ take 512 (?reads j)) @ drop (512 * Suc j) bytes)"
      using True by (intro less) simp
    also have "(acc @ take 512 (?reads j)) @ drop (512 * Suc j) bytes = acc @ drop (512 * j) bytes"
      using append_take_drop_id [of 512 "drop (512 * j) bytes"] by (simp add: add.commute)
    finally show ?thesis .
  next
    case False
    then show ?thesis by (simp add: read_changing_last)
  qed
qed

lemma list_entries_eq:
  "list_entries es ss = Inr out \<Longrightarrow>
     out = ss @ concat (map (listing_entry \<circ> fst) (filter (\<lambda>e. snd e = Inr True) es))"
  by (induction es ss rule: list_entries.induct) (auto simp: andthen_Inr_iff split: if_splits)


subsection \<open>Where it looks\<close>

text \<open>Two file systems that agree below a root at all times\<close>

definition agree_below :: "string \<Rightarrow> file_history \<Rightarrow> file_history \<Rightarrow> bool" where
  "agree_below root f g \<longleftrightarrow> (\<forall>t p. below root p \<longrightarrow> f t p = g t p)"

lemma agree_below_path:
  assumes "agree_below root f g" "NUL \<notin> set root" "\<not> is_absolute rel" "\<not> sublist ''..'' rel"
  shows "f t (c_str (path_append root rel)) = g t (c_str (path_append root rel))"
proof -
  have "\<not> is_absolute (c_str rel)"
    using assms(3) by (cases rel) (auto simp: is_absolute_def c_str_def)
  moreover have "\<not> sublist ''..'' (c_str rel)"
    using assms(4) by (rule sublist_c_str)
  ultimately have "below root (path_append root (c_str rel))" by (rule belowI)
  with assms(1) show ?thesis
    by (simp add: agree_below_def c_str_path_append [OF assms(2,3)])
qed

lemma fs_reads_cong:
  assumes "f (c_str p) = g (c_str p)"
  shows "fs_exists f p = fs_exists g p" "fs_is_directory f p = fs_is_directory g p"
    "fs_is_regular_file f p = fs_is_regular_file g p" "fs_open f p = fs_open g p"
    "fs_directory_entries f p = fs_directory_entries g p"
  using assms
  by (simp_all add: fs_exists_def fs_is_directory_def fs_is_regular_file_def fs_open_def
      fs_directory_entries_def)

lemma serve_file_cong:
  assumes "\<And>t. f t (c_str p) = g t (c_str p)"
  shows "serve_file f t p rep = serve_file g t p rep"
  unfolding serve_file_def fs_reads_cong [of "f n" p "g n" for n, OF assms] by (rule refl)

lemma list_directory_cong:
  assumes "f (c_str p) = g (c_str p)"
  shows "list_directory f p rep = list_directory g p rep"
  unfolding list_directory_def fs_reads_cong [of f p g, OF assms] by (rule refl)

lemma no_dotdot_index:
  "\<not> sublist ''..'' rel \<Longrightarrow> \<not> sublist ''..'' (path_append rel ''index.html'')"
proof -
  have i: "\<not> sublist ''..'' ''index.html''" by (simp add: sublist_Cons_right)
  assume "\<not> sublist ''..'' rel"
  then show ?thesis
    using i by (auto simp: path_append_def is_absolute_def sublist_append sublist_Cons_right
        append_eq_Cons_conv Cons_eq_append_conv)
qed

lemma serve_static_below:
  assumes agree: "agree_below doc_root f g" and root: "NUL \<notin> set doc_root"
    and path: "\<not> sublist ''..'' path"
  shows "serve_static f doc_root loc path req rep = serve_static g doc_root loc path req rep"
proof -
  let ?rel = "relative_path (drop (length loc) path)"
  let ?p = "path_append doc_root ?rel"
  let ?i = "path_append ?p ''index.html''"
  have "sublist ?rel path"
    by (metis relative_path_def sublist_order.order_trans suffix_dropWhile suffix_drop suffix_imp_sublist)
  then have rel: "\<not> sublist ''..'' ?rel"
    using path sublist_order.order_trans by blast
  have p: "f t (c_str ?p) = g t (c_str ?p)" for t
    using agree root rel by (intro agree_below_path) auto
  have idx: "?i = path_append doc_root (path_append ?rel ''index.html'')"
    by (rule path_append_twice) (auto simp: is_absolute_def [of "''index.html''"])
  have "\<not> is_absolute (path_append ?rel ''index.html'')"
    using not_absolute_relative_path [of "drop (length loc) path"]
    by (cases ?rel) (auto simp: path_append_def is_absolute_def)
  then have i: "f t (c_str ?i) = g t (c_str ?i)" for t
    unfolding idx using agree root no_dotdot_index [OF rel] by (intro agree_below_path) auto
  show ?thesis
    unfolding serve_static_def static_reply_def Let_def fs_reads_cong [of "f t" ?p "g t" for t, OF p]
      fs_reads_cong [of "f t" ?i "g t" for t, OF i] serve_file_cong [of f ?p g, OF p]
      serve_file_cong [of f ?i g, OF i] list_directory_cong [of "f t" ?p "g t" for t, OF p]
    by (rule refl)
qed



subsection \<open>The replies\<close>

lemma body_headers_framed:
  "framed (rep\<lparr>status := st, content := c, rep_headers := body_headers c t\<rparr>)"
  by (simp add: framed_def header_values_def body_headers_def)

lemma body_headers_ok:
  "one_line t \<Longrightarrow> headers_ok (rep\<lparr>status := st, content := c, rep_headers := body_headers c t\<rparr>)"
  by (simp add: headers_ok_def body_headers_def header_ok_def)

lemma serve_file_reply:
  "serve_file fsys t p rep = Inr r \<Longrightarrow> framed r \<and> headers_ok r"
  by (auto simp: serve_file_def andthen_Inr_iff Let_def body_headers_framed body_headers_ok
      split: if_splits option.splits)

lemma list_directory_reply:
  "framed (list_directory fsys p rep) \<and> headers_ok (list_directory fsys p rep)"
  by (simp add: list_directory_def Let_def body_headers_framed body_headers_ok split: sum.split)

lemma redirect_reply:
  assumes "one_line u"
  shows "framed ((stock_reply st)\<lparr>rep_headers := rep_headers (stock_reply st) @
      [\<lparr>h_name = ''Location'', h_value = u @ ''/''\<rparr>]\<rparr>)"
    and "headers_ok ((stock_reply st)\<lparr>rep_headers := rep_headers (stock_reply st) @
      [\<lparr>h_name = ''Location'', h_value = u @ ''/''\<rparr>]\<rparr>)"
  using assms
  by (simp_all add: framed_def header_values_def headers_ok_def header_ok_def stock_reply_def Let_def)

lemma serve_static_no_match: "serve_static fsys root loc path req rep = Inr (False, r) \<longleftrightarrow>
    \<not> prefix loc path \<and> r = rep"
  by (auto simp: serve_static_def Let_def andthen_Inr_iff)

lemma static_reply_result:
  assumes "static_reply fsys p uri rep = Inr r" and "one_line uri"
  shows "framed r \<and> headers_ok r"
proof -
  from assms(1) obtain dir where dir: "fs_is_directory (fsys 0) p = Inr dir"
    by (cases "fs_is_directory (fsys 0) p") (simp_all add: static_reply_def)
  let ?i = "path_append p ''index.html''"
  show ?thesis
  proof (cases dir)
    case False
    with assms(1) dir show ?thesis
      by (simp add: static_reply_def serve_file_reply)
  next
    case True
    with assms(1) dir obtain ex where ex: "fs_exists (fsys 1) ?i = Inr ex"
      by (cases "fs_exists (fsys 1) ?i") (simp_all add: static_reply_def Let_def)
    show ?thesis
    proof (cases ex)
      case True
      with assms(1) dir ex \<open>dir\<close> show ?thesis
        by (simp add: static_reply_def Let_def serve_file_reply)
    next
      case False
      with assms(1) dir ex \<open>dir\<close> consider
          "r = list_directory (fsys 2) p rep"
        | "r = (stock_reply moved_permanently)\<lparr>rep_headers := rep_headers (stock_reply moved_permanently) @
            [\<lparr>h_name = ''Location'', h_value = uri @ ''/''\<rparr>]\<rparr>"
        by (auto simp: static_reply_def Let_def split: if_split_asm)
      then show ?thesis
        using redirect_reply [OF assms(2)] by cases (simp_all add: list_directory_reply)
    qed
  qed
qed

lemma serve_static_reply:
  assumes "serve_static fsys root loc path req rep = Inr (True, r)" and "one_line (req_uri req)"
  shows "headers_ok r \<and> (req_method req \<noteq> ''HEAD'' \<longrightarrow> framed r)"
proof -
  let ?p = "path_append root (relative_path (drop (length loc) path))"
  have "prefix loc path" using assms(1) by (rule contrapos_pp) (simp add: serve_static_def)
  with assms(1) obtain r' where r': "static_reply fsys ?p (req_uri req) rep = Inr r'"
    and r: "r = (if req_method req = ''HEAD'' then r'\<lparr>content := []\<rparr> else r')"
    by (cases "static_reply fsys ?p (req_uri req) rep") (simp_all add: serve_static_def Let_def)
  from static_reply_result [OF r' assms(2)] have "framed r' \<and> headers_ok r'" .
  then show ?thesis by (simp add: r headers_ok_def)
qed

text \<open>A HEAD request gets the reply to the GET request without its body.\<close>

lemma serve_static_HEAD:
  "serve_static fsys root loc path (req\<lparr>req_method := ''HEAD''\<rparr>) rep =
     andthen (serve_static fsys root loc path (req\<lparr>req_method := ''GET''\<rparr>) rep)
       (\<lambda>(m, r). Inr (m, if m then r\<lparr>content := []\<rparr> else r))"
  by (simp add: serve_static_def Let_def andthen_def split: sum.split)

text \<open>A regular file that can be opened is sent as it is.\<close>

lemma serve_file_regular:
  "(\<And>t. fsys t (c_str p) = Inr (Regular (Some bytes))) \<Longrightarrow>
     serve_file fsys t p rep = Inr (rep\<lparr>status := ok, content := content rep @ bytes,
       rep_headers := body_headers (content rep @ bytes) (extension_to_type (extension p))\<rparr>)"
  by (simp add: serve_file_def fs_exists_def fs_is_regular_file_def fs_open_def read_loop_eq Let_def)


text \<open>A location is a prefix of characters, not of segments: \<open>/logs\<close> also takes \<open>/logsecret\<close>.\<close>

lemma location_not_segment:
  "serve_static fsys ''/srv'' ''/logs'' ''/logsecret'' req rep =
     serve_static fsys ''/srv'' ''/logs'' ''/logs/ecret'' req rep"
  by (simp add: serve_static_def relative_path_def)

text \<open>
  The file that a path stands for, with its name: a regular file that can be opened, or the index page of a
  directory that has one.
\<close>

definition web_file :: "filesystem \<Rightarrow> string \<Rightarrow> (string \<times> string) option" where
  "web_file fsys full =
     (case fsys (c_str full) of
        Inr (Regular (Some bytes)) \<Rightarrow> Some (full, bytes)
      | Inr (Directory b es) \<Rightarrow>
          (let index_path = path_append full ''index.html'' in
           case fsys (c_str index_path) of
             Inr (Regular (Some bytes)) \<Rightarrow> Some (index_path, bytes)
           | _ \<Rightarrow> None)
      | _ \<Rightarrow> None)"

lemma web_file_cases:
  assumes "web_file fsys full = Some (f, bytes)"
  obtains (regular) "fsys (c_str full) = Inr (Regular (Some bytes))" "f = full"
  | (index_page) b es where "fsys (c_str full) = Inr (Directory b es)" "f = path_append full ''index.html''"
      "fsys (c_str f) = Inr (Regular (Some bytes))"
  using assms by (auto simp: web_file_def Let_def split: sum.splits fs_node.splits option.splits)

lemma static_reply_web_file:
  assumes "\<And>t. web_file (fsys t) full = Some (f, bytes)" "content rep = []"
  shows "static_reply fsys full uri rep =
    Inr (rep\<lparr>status := ok, content := bytes, rep_headers := body_headers bytes (extension_to_type (extension f))\<rparr>)"
proof -
  have f: "fsys t (c_str f) = Inr (Regular (Some bytes))" for t
    using assms(1) [of t] by (cases rule: web_file_cases) simp_all
  note served = serve_file_regular [of fsys f bytes _ rep, OF f, unfolded assms(2) append_Nil]
  show ?thesis
    using assms(1) [of 0]
  proof (cases rule: web_file_cases)
    case regular
    then show ?thesis using served by (simp add: static_reply_def fs_is_directory_def)
  next
    case (index_page b es)
    then show ?thesis
      using served f [of 1] by (simp add: static_reply_def fs_is_directory_def fs_exists_def)
  qed
qed

lemma serve_static_web_file:
  assumes "\<And>t. web_file (fsys t) (path_append root (relative_path p)) = Some (f, bytes)"
    and "req_method req = ''GET''" "content rep = []"
  shows "serve_static fsys root loc (loc @ p) req rep = Inr (True, rep\<lparr>status := ok, content := bytes,
    rep_headers := body_headers bytes (extension_to_type (extension f))\<rparr>)"
  using assms(2) by (simp add: serve_static_def static_reply_web_file [OF assms(1,3)])



definition slash_reply :: "string \<Rightarrow> reply" where
  "slash_reply uri = (stock_reply moved_permanently)\<lparr>rep_headers :=
     rep_headers (stock_reply moved_permanently) @ [\<lparr>h_name = ''Location'', h_value = uri @ ''/''\<rparr>]\<rparr>"



text \<open>
  The URI is sent back as the client wrote it: a directory asked for with two slashes redirects to \<open>//d/\<close>, which
  a client takes for the root of a host named \<open>d\<close>.
\<close>

lemma double_slash_redirect:
  "serve_static (\<lambda>t p. if p = ''/srv/d'' then Inr (Directory (Some []) (Inr [])) else Inr Missing) ''/srv'' ''/'' ''//d''
     (empty_request\<lparr>req_method := ''GET'', req_uri := ''//d''\<rparr>) rep = Inr (True, slash_reply ''//d'')"
proof -
  have "path_append ''/srv'' (relative_path ''/d'') = ''/srv/d''"
    "c_str (path_append ''/srv/d'' ''index.html'') = ''/srv/d/index.html''" "c_str ''/srv/d'' = ''/srv/d''"
    by code_simp+
  then show ?thesis
    by (simp add: serve_static_def static_reply_def fs_is_directory_def fs_exists_def slash_reply_def Let_def)
qed





subsection \<open>Properties\<close>

text \<open>
  The loop that reads in blocks of 512 bytes appends the whole file to the
  content, whatever its length.
\<close>

theorem read_loop_reads_all: "read_loop bytes acc = acc @ bytes"
  by (rule read_loop_eq)

text \<open>
  A GET request below the location of a resource, for a path at which its
  root holds a regular file that can be opened, gets status 200 and the bytes of the file, with their
  length and the media type of the extension.
\<close>

theorem serve_static_file:
  assumes "\<And>t. fsys t (c_str (path_append root (relative_path p))) = Inr (Regular (Some bytes))"
    and "req_method req = ''GET''" "content rep = []"
  shows "serve_static fsys root loc (loc @ p) req rep =
    Inr (True, rep\<lparr>status := ok, content := bytes,
      rep_headers := body_headers bytes (extension_to_type (extension (path_append root (relative_path p))))\<rparr>)"
  using assms(2,3)
  by (intro serve_static_web_file) (simp_all add: web_file_def assms(1))

theorem serve_static_file_witness:
  "serve_static (\<lambda>t p. if p = ''/srv/a.css'' then Inr (Regular (Some ''x'')) else Inr Missing)
     ''/srv'' ''/s'' ''/s//a.css'' (empty_request\<lparr>req_method := ''GET''\<rparr>) (stock_reply ok) =
   Inr (True, (stock_reply ok)\<lparr>status := ok, content := ''x'', rep_headers := body_headers ''x'' ''text/css''\<rparr>)"
proof -
  have p: "path_append ''/srv'' (relative_path ''//a.css'') = ''/srv/a.css''" by code_simp
  have t: "extension_to_type (extension ''/srv/a.css'') = ''text/css''" by code_simp
  have c: "c_str ''/srv/a.css'' = ''/srv/a.css''" by code_simp
  show ?thesis
    using serve_static_file [of "\<lambda>t p. if p = ''/srv/a.css'' then Inr (Regular (Some ''x'')) else Inr Missing"
        "''/srv''" "''//a.css''" "''x''" "empty_request\<lparr>req_method := ''GET''\<rparr>" "stock_reply ok" "''/s''",
        unfolded p c t]
    by simp
qed

text \<open>
  C36 (serve_static_directory): a directory without an index page is listed when the URI ends with a
  slash, one link for every regular file in the order of the iteration; otherwise the client is sent
  to the URI with the slash.
\<close>

theorem serve_static_directory:
  assumes "\<And>t. fsys t (c_str (path_append root (relative_path p))) = Inr (Directory b (Inr es))"
    and "\<And>t. fsys t (c_str (path_append (path_append root (relative_path p)) ''index.html'')) = Inr Missing"
    and "req_method req = ''GET''" "\<And>e. e \<in> set es \<Longrightarrow> \<exists>b. snd e = Inr b"
  shows "serve_static fsys root loc (loc @ p) req rep = Inr (True,
    if suffix ''/'' (req_uri req) then
      (let c = listing_head @ concat (map (listing_entry \<circ> fst) (filter (\<lambda>e. snd e = Inr True) es)) @
         listing_tail in
       rep\<lparr>status := ok, content := c, rep_headers := body_headers c ''text/html''\<rparr>)
    else (stock_reply moved_permanently)\<lparr>rep_headers := rep_headers (stock_reply moved_permanently) @
       [\<lparr>h_name = ''Location'', h_value = req_uri req @ ''/''\<rparr>]\<rparr>)"
proof -
  have "\<exists>out. list_entries es ss = Inr out" for ss
    using assms(4)
  proof (induction es ss rule: list_entries.induct)
    case (2 name reg es ss)
    then show ?case by (cases reg) force+
  qed simp
  then have l: "list_entries es listing_head = Inr (listing_head @
      concat (map (listing_entry \<circ> fst) (filter (\<lambda>e. snd e = Inr True) es)))"
    using list_entries_eq by metis
  have s: "suffix ''/'' u \<longleftrightarrow> u \<noteq> [] \<and> last u = CHR ''/''" for u
    by (cases u rule: rev_cases) auto
  have t: "extension_to_type ''.html'' = ''text/html''" by code_simp
  show ?thesis
    using assms(1-3)
    by (simp add: serve_static_def Let_def static_reply_def fs_is_directory_def fs_exists_def
        list_directory_def fs_directory_entries_def l s t)
qed

theorem serve_static_directory_witness:
  "serve_static (\<lambda>t p. if p = ''/srv/d'' then Inr (Directory (Some []) (Inr [(''a'', Inr True), (''b'', Inr False)]))
       else Inr Missing)
     ''/srv'' ''/'' ''/d'' (empty_request\<lparr>req_method := ''GET'', req_uri := ''/d''\<rparr>) (stock_reply ok) =
   Inr (True, (stock_reply moved_permanently)\<lparr>rep_headers := rep_headers (stock_reply moved_permanently) @
       [\<lparr>h_name = ''Location'', h_value = ''/d/''\<rparr>]\<rparr>)"
proof -
  have p: "path_append ''/srv'' (relative_path ''d'') = ''/srv/d''" by code_simp
  have i: "c_str (path_append ''/srv/d'' ''index.html'') = ''/srv/d/index.html''" by code_simp
  have c: "c_str ''/srv/d'' = ''/srv/d''" by code_simp
  have e: "\<exists>b. snd e = Inr b" if "e \<in> set [(''a'', Inr True), (''b'', Inr False)]"
    for e :: "string \<times> (exn + bool)"
    using that by auto
  show ?thesis
    using serve_static_directory [of
        "\<lambda>t p. if p = ''/srv/d'' then Inr (Directory (Some []) (Inr [(''a'', Inr True), (''b'', Inr False)])) else Inr Missing"
        "''/srv''" "''d''" "Some []" "[(''a'', Inr True), (''b'', Inr False)]"
        "empty_request\<lparr>req_method := ''GET'', req_uri := ''/d''\<rparr>" "''/''" "stock_reply ok",
        OF _ _ _ e, unfolded p c i]
    by (simp add: suffix_Cons)
qed

text \<open>
  A HEAD request for static content gets the status and the headers of the
  GET request, so the length of the body it does not get, and no body.
\<close>

theorem serve_static_head:
  "serve_static fsys root loc path (req\<lparr>req_method := ''HEAD''\<rparr>) rep =
     andthen (serve_static fsys root loc path (req\<lparr>req_method := ''GET''\<rparr>) rep)
       (\<lambda>(m, r). Inr (m, if m then r\<lparr>content := []\<rparr> else r))"
  by (rule serve_static_HEAD)

text \<open>
  A static resource asked for a path without two dots in a row reads only
  below its root: two file systems that agree there give the same answer.
\<close>

theorem serve_static_confined:
  assumes "NUL \<notin> set doc_root" "\<not> sublist ''..'' path"
    and "\<And>t p. below doc_root p \<Longrightarrow> f t p = g t p"
  shows "serve_static f doc_root loc path req rep = serve_static g doc_root loc path req rep"
  using assms by (intro serve_static_below) (simp_all add: agree_below_def)

theorem serve_static_confined_witness:
  "serve_static (\<lambda>t p. Inr Missing) ''/srv'' ''/'' ''/a%00'' empty_request (stock_reply ok) =
   serve_static (\<lambda>t p. if p = ''/etc'' then Inr (Special (Some [])) else Inr Missing) ''/srv'' ''/'' ''/a%00''
     empty_request (stock_reply ok)"
proof (rule serve_static_confined)
  show "\<not> sublist ''..'' ''/a%00''" by (simp add: sublist_Cons_right)
  show "Inr Missing = (if p = ''/etc'' then Inr (Special (Some [])) else Inr Missing)" if "below ''/srv'' p" for p
    using that by (auto simp: below_def path_append_def split: if_splits)
qed simp





text \<open>
  C35 (file_read_ends): the loop that reads a file, which other programs may write to meanwhile, ends exactly if some
  read does not fill the buffer, and the content then gets what all reads up to that one brought. A file that
  nobody writes to is read completely.
\<close>

theorem file_read_ends:
  "(case read_changing reads 0 True acc of
      None \<Rightarrow> \<forall>i. 512 \<le> length (reads i)
    | Some out \<Rightarrow> \<exists>n. length (reads n) < 512 \<and> (\<forall>i < n. 512 \<le> length (reads i)) \<and>
        out = acc @ concat (map (\<lambda>i. take 512 (reads i)) [0..<Suc n])) \<and>
   read_changing (\<lambda>i. take 512 (drop (512 * i) bytes)) 0 True acc = Some (read_loop bytes acc)"
proof
  show "read_changing (\<lambda>i. take 512 (drop (512 * i) bytes)) 0 True acc = Some (read_loop bytes acc)"
    using read_changing_unchanged [of bytes 0 acc] by (simp add: read_loop_eq)
  show "case read_changing reads 0 True acc of
      None \<Rightarrow> \<forall>i. 512 \<le> length (reads i)
    | Some out \<Rightarrow> \<exists>n. length (reads n) < 512 \<and> (\<forall>i < n. 512 \<le> length (reads i)) \<and>
        out = acc @ concat (map (\<lambda>i. take 512 (reads i)) [0..<Suc n])"
  proof (cases "\<forall>i. 512 \<le> length (reads i)")
    case True
    with growing_file_never_ends [of reads acc] show ?thesis by simp
  next
    case False
    then obtain n where n: "length (reads n) < 512" "\<forall>i < n. 512 \<le> length (reads i)"
      using exists_least_iff [of "\<lambda>n. length (reads n) < 512"] by (auto simp: not_le not_less)
    with read_changing_Some [of n reads 0 acc] show ?thesis by auto
  qed
qed

theorem file_read_ends_witness:
  "read_changing (\<lambda>i. if i < 2 then replicate 512 (CHR ''a'') else ''b'') 0 True [] \<noteq> None"
proof
  let ?reads = "\<lambda>i::nat. if i < 2 then replicate 512 (CHR ''a'') else ''b''"
  assume "read_changing ?reads 0 True [] = None"
  then have "512 \<le> length (?reads 2)"
    using file_read_ends [of ?reads "[]"] by (simp only: option.case)
  then show False by simp
qed

end
