(* ===== verification/String_Util.thy ===== *)
theory String_Util
  imports F16_Prelude
begin

section \<open>Splitting and route patterns (\<open>src/lib/string.hpp\<close>)\<close>

text \<open>
  \<^verbatim>\<open>split_string\<close> and \<^verbatim>\<open>match_pattern\<close>. The matcher is modelled as the loop over two positions that
  the code runs, then shown to run over the tokens of the pattern (\<open>match_tokens\<close>), and from there
  to accept exactly the inputs one gets by filling the parameters of the pattern with values.
\<close>

definition split_string :: "string \<Rightarrow> char \<Rightarrow> string \<times> string" where
  "split_string input delim =
     (case find_from delim input 0 of
        Some pos \<Rightarrow> (substr input 0 pos, drop (pos + 1) input)
      | None \<Rightarrow> (input, []))"

lemma split_string_eq:
  "split_string s d = (takeWhile (\<lambda>c. c \<noteq> d) s, tl (dropWhile (\<lambda>c. c \<noteq> d) s))"
proof (cases "d \<in> set s")
  case True
  then show ?thesis
    by (simp add: split_string_def find_from_def substr_def take_length_takeWhile
        dropWhile_eq_drop_length tl_drop drop_Suc)
next
  case False
  then show ?thesis
    by (simp add: split_string_def find_from_def takeWhile_absent dropWhile_absent)
qed

lemma split_string_append: "d \<notin> set a \<Longrightarrow> split_string (a @ d # b) d = (a, b)"
  by (simp add: split_string_eq takeWhile_cut dropWhile_cut)

lemma split_string_none: "d \<notin> set a \<Longrightarrow> split_string a d = (a, [])"
  by (simp add: split_string_def find_from_def)

lemma split_string_join:
  "split_string s d = (a, b) \<Longrightarrow> d \<notin> set a \<and> s = a @ (if d \<in> set s then d # b else [])"
  by (cases "d \<in> set s") (auto simp: split_string_none dest!: split_list_first simp: split_string_append)


subsection \<open>The matcher\<close>

text \<open>
  The loop of \<^verbatim>\<open>match_pattern\<close> with \<open>pp\<close> for \<^verbatim>\<open>pattern_pos\<close> and \<open>ip\<close> for \<^verbatim>\<open>input_pos\<close>. Where a
  delimiter is not found the code computes \<^verbatim>\<open>npos - pos\<close>, more than what is left, so \<^verbatim>\<open>substr\<close>
  takes the rest of the string. The result is the value returned and the final \<^verbatim>\<open>params\<close>.
\<close>

function match_loop :: "string \<Rightarrow> string \<Rightarrow> nat \<Rightarrow> nat \<Rightarrow> params \<Rightarrow> bool \<times> params" where
  "match_loop pattern input pp ip ps =
     (if pp < length pattern \<and> ip < length input then
        (if pattern ! pp = CHR '':'' then
           (let param_name_end = find_from (CHR ''/'') pattern (pp + 1);
                param_name = (case param_name_end of
                    None \<Rightarrow> drop (pp + 1) pattern
                  | Some e \<Rightarrow> substr pattern (pp + 1) (e - (pp + 1)));
                param_value_end = find_from (CHR ''/'') input ip;
                param_value = (case param_value_end of
                    None \<Rightarrow> drop ip input
                  | Some e \<Rightarrow> substr input ip (e - ip))
            in match_loop pattern input
                 (case param_name_end of None \<Rightarrow> length pattern | Some e \<Rightarrow> e)
                 (case param_value_end of None \<Rightarrow> length input | Some e \<Rightarrow> e)
                 (ps(param_name \<mapsto> param_value)))
         else if pattern ! pp \<noteq> input ! ip then (False, ps)
         else match_loop pattern input (pp + 1) (ip + 1) ps)
      else
        (pp = length pattern \<and>
           (ip = length input \<or> ip + 1 = length input \<and> last input = CHR ''/''), ps))"
  by pat_completeness auto
termination
proof (relation "measure (\<lambda>(pattern, input, pp, ip, ps). length pattern - pp)", goal_cases)
  case (2 pattern input pp ip ps param_name_end)
  then show ?case by (fastforce split: option.split dest: find_from_lt)
qed auto

declare match_loop.simps [simp del]

definition match_pattern :: "string \<Rightarrow> string \<Rightarrow> bool \<times> params" where
  "match_pattern pattern input = match_loop pattern input 0 0 Map.empty"


subsection \<open>Patterns as tokens\<close>

datatype token = Lit char | Param string

function tokenize :: "string \<Rightarrow> token list" where
  "tokenize [] = []"
| "tokenize (c # cs) =
     (if c = CHR '':'' then
        Param (takeWhile (\<lambda>x. x \<noteq> CHR ''/'') cs) # tokenize (dropWhile (\<lambda>x. x \<noteq> CHR ''/'') cs)
      else Lit c # tokenize cs)"
  by pat_completeness auto
termination
  by (relation "measure length") (auto simp: less_Suc_eq_le length_dropWhile_le)

fun param_names :: "token list \<Rightarrow> string list" where
  "param_names [] = []"
| "param_names (Lit c # ts) = param_names ts"
| "param_names (Param n # ts) = n # param_names ts"

text \<open>The input that a pattern stands for when its parameters have the values \<open>vs\<close>\<close>

fun fill :: "token list \<Rightarrow> string list \<Rightarrow> string" where
  "fill [] vs = []"
| "fill (Lit c # ts) vs = c # fill ts vs"
| "fill (Param n # ts) (v # vs) = v @ fill ts vs"
| "fill (Param n # ts) [] = fill ts []"

fun match_tokens :: "token list \<Rightarrow> string \<Rightarrow> params \<Rightarrow> bool \<times> params" where
  "match_tokens [] i ps = (i = [] \<or> i = ''/'', ps)"
| "match_tokens (t # ts) [] ps = (False, ps)"
| "match_tokens (Lit c # ts) (d # ds) ps =
     (if c \<noteq> d then (False, ps) else match_tokens ts ds ps)"
| "match_tokens (Param n # ts) (d # ds) ps =
     match_tokens ts (dropWhile (\<lambda>x. x \<noteq> CHR ''/'') (d # ds))
       (ps(n \<mapsto> takeWhile (\<lambda>x. x \<noteq> CHR ''/'') (d # ds)))"

lemma tokenize_eq_Nil: "tokenize p = [] \<longleftrightarrow> p = []"
  by (cases p) auto

lemma drop_slash_iff:
  "ip \<le> length s \<Longrightarrow> drop ip s = ''/'' \<longleftrightarrow> ip + 1 = length s \<and> last s = CHR ''/''"
proof -
  assume "ip \<le> length s"
  show ?thesis
  proof
    assume d: "drop ip s = ''/''"
    then have "length (drop ip s) = 1" by simp
    moreover from d have "last (drop ip s) = CHR ''/''" by simp
    ultimately show "ip + 1 = length s \<and> last s = CHR ''/''"
      by (cases "ip < length s") (auto simp: last_drop)
  next
    assume "ip + 1 = length s \<and> last s = CHR ''/''"
    then show "drop ip s = ''/''"
      by (metis Cons_nth_drop_Suc Suc_eq_plus1 add_diff_cancel_right' drop_all last_conv_nth
          length_greater_0_conv lessI less_Suc_eq_0_disj order_refl)
  qed
qed

lemma match_loop_end:
  assumes "\<not> (pp < length pattern \<and> ip < length input)" "pp \<le> length pattern" "ip \<le> length input"
  shows "match_loop pattern input pp ip ps = match_tokens (tokenize (drop pp pattern)) (drop ip input) ps"
proof -
  have stop: "match_loop pattern input pp ip ps =
      (pp = length pattern \<and> (drop ip input = [] \<or> drop ip input = ''/''), ps)"
    using assms by (auto simp: match_loop.simps [of pattern input pp ip] drop_slash_iff)
  show ?thesis
  proof (cases "pp = length pattern")
    case True
    with stop show ?thesis by simp
  next
    case pp: False
    with assms have "drop ip input = []" by simp
    moreover obtain t ts where "tokenize (drop pp pattern) = t # ts"
      using pp assms(2) by (metis drop_eq_Nil le_antisym list.exhaust tokenize_eq_Nil)
    ultimately show ?thesis using pp by (simp add: stop)
  qed
qed

lemma match_loop_eq:
  "pp \<le> length pattern \<Longrightarrow> ip \<le> length input \<Longrightarrow>
     match_loop pattern input pp ip ps = match_tokens (tokenize (drop pp pattern)) (drop ip input) ps"
proof (induction pattern input pp ip ps rule: match_loop.induct)
  case (1 pattern input pp ip ps)
  show ?case
  proof (cases "pp < length pattern \<and> ip < length input")
    case False
    then show ?thesis using match_loop_end "1.prems" by blast
  next
    case True
    then have p: "drop pp pattern = pattern ! pp # drop (Suc pp) pattern"
      and i: "drop ip input = input ! ip # drop (Suc ip) input"
      by (simp_all add: Cons_nth_drop_Suc)
    show ?thesis
    proof (cases "pattern ! pp = CHR '':''")
      case colon: True
      let ?pe = "find_from (CHR ''/'') pattern (pp + 1)"
      let ?ve = "find_from (CHR ''/'') input ip"
      let ?pp = "case ?pe of None \<Rightarrow> length pattern | Some e \<Rightarrow> e"
      let ?ip = "case ?ve of None \<Rightarrow> length input | Some e \<Rightarrow> e"
      let ?ps = "ps(takeWhile (\<lambda>x. x \<noteq> CHR ''/'') (drop (pp + 1) pattern) \<mapsto>
          takeWhile (\<lambda>x. x \<noteq> CHR ''/'') (drop ip input))"
      have "?pp \<le> length pattern" "?ip \<le> length input"
        by (auto split: option.split dest: find_from_lt)
      with "1.IH"(1) [OF True colon refl refl refl refl]
      have IH: "match_loop pattern input ?pp ?ip ?ps =
          match_tokens (tokenize (drop ?pp pattern)) (drop ?ip input) ?ps"
        by (simp only: substr_find_from)
      have "match_loop pattern input pp ip ps = match_loop pattern input ?pp ?ip ?ps"
        by (subst match_loop.simps) (simp only: True colon Let_def substr_find_from if_True simp_thms)
      also have "\<dots> = match_tokens (tokenize (drop pp pattern)) (drop ip input) ps"
        unfolding IH unfolding drop_find_from by (simp add: p colon) (simp add: i)
      finally show ?thesis .
    next
      case False
      then show ?thesis
        using True "1.IH"(2) [OF True False]
        by (simp add: match_loop.simps [of pattern input pp ip] p i)
    qed
  qed
qed

lemma match_pattern_tokens:
  "match_pattern pattern input = match_tokens (tokenize pattern) input Map.empty"
  by (simp add: match_pattern_def match_loop_eq)


subsection \<open>What the matcher accepts\<close>

text \<open>A token list that comes from a pattern: a parameter name runs up to the next slash.\<close>

fun wf_tokens :: "token list \<Rightarrow> bool" where
  "wf_tokens [] = True"
| "wf_tokens (Lit c # ts) = (c \<noteq> CHR '':'' \<and> wf_tokens ts)"
| "wf_tokens (Param n # ts) =
     (CHR ''/'' \<notin> set n \<and> (ts = [] \<or> hd ts = Lit (CHR ''/'')) \<and> wf_tokens ts)"

text \<open>The loop stops when the input ends, so a parameter at the very end takes no empty value.\<close>

fun trailing_value :: "token list \<Rightarrow> string list \<Rightarrow> bool" where
  "trailing_value [] vs = True"
| "trailing_value (Lit c # ts) vs = trailing_value ts vs"
| "trailing_value (Param n # ts) (v # vs) = (if ts = [] then v \<noteq> [] else trailing_value ts vs)"
| "trailing_value (Param n # ts) [] = False"

definition values_for :: "token list \<Rightarrow> string list \<Rightarrow> bool" where
  "values_for ts vs \<longleftrightarrow>
     length vs = length (param_names ts) \<and> (\<forall>v \<in> set vs. CHR ''/'' \<notin> set v)"

lemma wf_tokenize: "wf_tokens (tokenize p)"
proof (induction p rule: tokenize.induct)
  case 1
  then show ?case by simp
next
  case (2 c cs)
  have "tokenize (dropWhile (\<lambda>x. x \<noteq> CHR ''/'') cs) = [] \<or>
      hd (tokenize (dropWhile (\<lambda>x. x \<noteq> CHR ''/'') cs)) = Lit (CHR ''/'')"
  proof (cases "dropWhile (\<lambda>x. x \<noteq> CHR ''/'') cs")
    case (Cons x xs)
    then have "x = CHR ''/''"
      using hd_dropWhile [where P = "\<lambda>x. x \<noteq> CHR ''/''" and xs = cs] by simp
    with Cons show ?thesis by simp
  qed (simp del: dropWhile_eq_Nil_conv)
  moreover have "CHR ''/'' \<notin> set (takeWhile (\<lambda>x. x \<noteq> CHR ''/'') cs)"
    by (auto dest: set_takeWhileD)
  ultimately show ?case using 2 by simp
qed

lemma match_tokens_sound:
  "match_tokens ts i ps = (True, m) \<Longrightarrow>
     \<exists>vs. values_for ts vs \<and> m = ps(param_names ts [\<mapsto>] vs) \<and>
       (i = fill ts vs \<and> trailing_value ts vs \<or> i = fill ts vs @ ''/'')"
proof (induction ts i ps rule: match_tokens.induct)
  case (1 i ps)
  then show ?case by (auto simp: values_for_def)
next
  case (2 t ts ps)
  then show ?case by simp
next
  case (3 c ts d ds ps)
  then obtain vs where "c = d" "values_for ts vs" "m = ps(param_names ts [\<mapsto>] vs)"
    "ds = fill ts vs \<and> trailing_value ts vs \<or> ds = fill ts vs @ ''/''"
    by (auto split: if_splits)
  then show ?case by (intro exI [of _ vs]) (auto simp: values_for_def)
next
  case (4 n ts d ds ps)
  define v where "v = takeWhile (\<lambda>x. x \<noteq> CHR ''/'') (d # ds)"
  define r where "r = dropWhile (\<lambda>x. x \<noteq> CHR ''/'') (d # ds)"
  have split: "d # ds = v @ r"
    unfolding v_def r_def by (rule takeWhile_dropWhile_id [symmetric])
  have v: "CHR ''/'' \<notin> set v"
    unfolding v_def by (auto dest: set_takeWhileD simp del: takeWhile.simps)
  from "4.prems" have "match_tokens ts r (ps(n \<mapsto> v)) = (True, m)"
    by (simp only: match_tokens.simps v_def r_def)
  with "4.IH" obtain vs where vs: "values_for ts vs" "m = (ps(n \<mapsto> v))(param_names ts [\<mapsto>] vs)"
    and r: "r = fill ts vs \<and> trailing_value ts vs \<or> r = fill ts vs @ ''/''"
    unfolding v_def r_def by blast
  have "values_for (Param n # ts) (v # vs)"
    using vs(1) v by (auto simp: values_for_def)
  moreover have "ts = [] \<Longrightarrow> r = [] \<Longrightarrow> v \<noteq> []"
    using split by auto
  ultimately show ?case
    using r vs(2) unfolding split by (intro exI [of _ "v # vs"]) auto
qed

lemma slash_free_split:
  assumes "CHR ''/'' \<notin> set v" and "r = [] \<or> hd r = CHR ''/''"
  shows "takeWhile (\<lambda>x. x \<noteq> CHR ''/'') (v @ r) = v" and "dropWhile (\<lambda>x. x \<noteq> CHR ''/'') (v @ r) = r"
  using assms by (cases r; auto simp: takeWhile_append dropWhile_append)+

lemma match_tokens_complete:
  "wf_tokens ts \<Longrightarrow> values_for ts vs \<Longrightarrow>
     i = fill ts vs \<and> trailing_value ts vs \<or> i = fill ts vs @ ''/'' \<Longrightarrow>
     match_tokens ts i ps = (True, ps(param_names ts [\<mapsto>] vs))"
proof (induction ts vs arbitrary: i ps rule: fill.induct)
  case (1 vs)
  then show ?case by (auto simp: values_for_def)
next
  case (2 c ts vs)
  then show ?case by (auto simp: values_for_def)
next
  case (3 n ts v vs)
  define r where "r = drop (length v) i"
  have i: "i = v @ r" and r: "r = fill ts vs \<and> (ts \<noteq> [] \<longrightarrow> trailing_value ts vs) \<or> r = fill ts vs @ ''/''"
    using "3.prems"(3) by (auto simp: r_def split: if_splits)
  have head: "r = [] \<or> hd r = CHR ''/''"
    using "3.prems"(1) r by (cases ts) (auto split: if_splits)
  have "i \<noteq> []"
    using "3.prems"(1,3) by (cases ts) (auto split: if_splits)
  then obtain d ds where d: "i = d # ds" by (cases i) auto
  have "match_tokens (Param n # ts) i ps = match_tokens ts r (ps(n \<mapsto> v))"
    using slash_free_split [of v r] head "3.prems"(2) i
    unfolding d match_tokens.simps by (simp add: values_for_def)
  also have "\<dots> = (True, (ps(n \<mapsto> v))(param_names ts [\<mapsto>] vs))"
    using "3.prems"(1,2) r by (intro "3.IH") (auto simp: values_for_def)
  finally show ?case by simp
next
  case (4 n ts)
  then show ?case by (simp add: values_for_def)
qed


lemma match_pattern_accepts:
  "match_pattern pattern input = (True, m) \<longleftrightarrow>
     (\<exists>vs. values_for (tokenize pattern) vs \<and> m = [param_names (tokenize pattern) [\<mapsto>] vs] \<and>
        (input = fill (tokenize pattern) vs \<and> trailing_value (tokenize pattern) vs \<or>
         input = fill (tokenize pattern) vs @ ''/''))"
  using match_tokens_sound [of "tokenize pattern" input Map.empty m]
    match_tokens_complete [OF wf_tokenize [of pattern], of _ input Map.empty]
  by (auto simp: match_pattern_tokens)

lemma trailing_value_nonempty: "values_for ts vs \<Longrightarrow> [] \<notin> set vs \<Longrightarrow> trailing_value ts vs"
  by (induction ts vs rule: trailing_value.induct) (auto simp: values_for_def)

lemma match_pattern_filled:
  "values_for (tokenize pattern) vs \<Longrightarrow> [] \<notin> set vs \<Longrightarrow>
     match_pattern pattern (fill (tokenize pattern) vs) = (True, [param_names (tokenize pattern) [\<mapsto>] vs])"
  using match_pattern_accepts trailing_value_nonempty by blast

text \<open>A pattern without parameters is a text, which may have one more slash.\<close>

lemma tokenize_literal: "CHR '':'' \<notin> set p \<Longrightarrow> tokenize p = map Lit p"
  by (induction p) auto

lemma match_tokens_literal: "match_tokens (map Lit l) i ps = (i = l \<or> i = l @ ''/'', ps)"
proof (induction l arbitrary: i)
  case (Cons c l)
  then show ?case by (cases i) auto
qed simp

lemma match_pattern_literal:
  "CHR '':'' \<notin> set p \<Longrightarrow> match_pattern p input = (input = p \<or> input = p @ ''/'', Map.empty)"
  by (simp add: match_pattern_tokens tokenize_literal match_tokens_literal)


subsection \<open>Properties\<close>

text \<open>
  C19 (match_pattern_iff): the matcher accepts exactly the paths that a pattern stands for, with or
  without a slash at the end, and binds each parameter to its segment; a last parameter without the
  slash needs a value.
\<close>

theorem match_pattern_iff:
  "match_pattern pattern input = (True, m) \<longleftrightarrow>
     (\<exists>vs. values_for (tokenize pattern) vs \<and> m = [param_names (tokenize pattern) [\<mapsto>] vs] \<and>
        (input = fill (tokenize pattern) vs \<and> trailing_value (tokenize pattern) vs \<or>
         input = fill (tokenize pattern) vs @ ''/''))"
  by (rule match_pattern_accepts)

end
