(* ===== verification/Dynamic_Content.thy ===== *)
theory Dynamic_Content
  imports Http_Request Http_Reply String_Util
begin

section \<open>Dynamic content (\<open>src/lib/dynamic_content.cpp\<close>, \<open>src/lib/dynamic_content.hpp\<close>)\<close>

text \<open>
  A resource whose body is written by a handler of the application. The handler is a parameter: a
  function of the request and of the stream it writes to, which may throw. The stream is its text
  with the media type and the status that the manipulators set.
\<close>

record response_stream =
  stream_text :: string
  content_type :: string
  stream_status :: status_type

definition new_stream :: response_stream where
  "new_stream = \<lparr>stream_text = [], content_type = ''text/plain'', stream_status = ok\<rparr>"

definition json :: "response_stream \<Rightarrow> response_stream" where
  "json os = os\<lparr>content_type := ''application/json''\<rparr>"

definition xml :: "response_stream \<Rightarrow> response_stream" where
  "xml os = os\<lparr>content_type := ''application/xml''\<rparr>"

definition plain_text :: "response_stream \<Rightarrow> response_stream" where
  "plain_text os = os\<lparr>content_type := ''text/plain''\<rparr>"

definition set_ok :: "response_stream \<Rightarrow> response_stream" where
  "set_ok os = os\<lparr>stream_status := ok\<rparr>"

definition set_bad_request :: "response_stream \<Rightarrow> response_stream" where
  "set_bad_request os = os\<lparr>stream_status := bad_request\<rparr>"

text \<open>\<^verbatim>\<open>os << f\<close> for a manipulator and \<^verbatim>\<open>os << s\<close> for a string\<close>

definition manipulate :: "(response_stream \<Rightarrow> response_stream) \<Rightarrow> response_stream \<Rightarrow> response_stream" where
  [simp]: "manipulate f os = f os"

definition put_text :: "string \<Rightarrow> response_stream \<Rightarrow> response_stream" where
  "put_text s os = os\<lparr>stream_text := stream_text os @ s\<rparr>"

type_synonym handler_fn = "request \<Rightarrow> response_stream \<Rightarrow> exn + response_stream"

text \<open>\<^verbatim>\<open>std::getline\<close> with a delimiter until it fails: a delimiter at the end starts no new item\<close>

function getlines :: "char \<Rightarrow> string \<Rightarrow> string list" where
  "getlines d s =
     (if s = [] then []
      else takeWhile (\<lambda>c. c \<noteq> d) s # getlines d (tl (dropWhile (\<lambda>c. c \<noteq> d) s)))"
  by pat_completeness auto
termination
proof (relation "measure (\<lambda>(d, s). length s)", goal_cases)
  case (2 d s)
  have "length (dropWhile (\<lambda>c. c \<noteq> d) s) \<le> length s" by (rule length_dropWhile_le)
  with 2 show ?case by (cases s) auto
qed simp

declare getlines.simps [simp del]

fun add_params :: "string list \<Rightarrow> request \<Rightarrow> request" where
  "add_params [] q = q"
| "add_params (p # ps) q =
     (let kv = split_string p (CHR ''='') in add_params ps (add_queryvalue (fst kv) (snd kv) q))"

definition handle_query_parameters :: "string \<Rightarrow> request \<Rightarrow> request" where
  "handle_query_parameters qs q = add_params (getlines (CHR ''&'') qs) q"

definition serve_dynamic :: "handler_fn \<Rightarrow> string \<Rightarrow> string \<Rightarrow> http_request \<Rightarrow> reply \<Rightarrow>
    exn + bool \<times> reply" where
  "serve_dynamic handler loc request_path http_req rep =
     (let (res, qs) = split_string request_path (CHR ''?'');
          (matched, ps) = match_pattern loc res in
      if \<not> matched then Inr (False, rep)
      else andthen (handler (handle_query_parameters qs ((new_request http_req)\<lparr>resources := ps\<rparr>)) new_stream)
        (\<lambda>ss. Inr (True, rep\<lparr>content := stream_text ss,
           status := stream_status ss,
           rep_headers := [\<lparr>h_name = ''Content-Length'', h_value = to_string (length (stream_text ss))\<rparr>,
                           \<lparr>h_name = ''Content-Type'', h_value = content_type ss\<rparr>]\<rparr>)))"


subsection \<open>The query string\<close>

text \<open>The text of a query string with the given keys and values\<close>

definition param_text :: "string \<times> string \<Rightarrow> string" where
  "param_text kv = fst kv @ CHR ''='' # snd kv"

fun query_text :: "(string \<times> string) list \<Rightarrow> string" where
  "query_text [] = []"
| "query_text [kv] = param_text kv"
| "query_text (kv # kvs) = param_text kv @ CHR ''&'' # query_text kvs"

definition params_ok :: "(string \<times> string) list \<Rightarrow> bool" where
  "params_ok kvs \<longleftrightarrow> (\<forall>(k, v) \<in> set kvs.
     CHR ''='' \<notin> set k \<and> CHR ''&'' \<notin> set k \<and> CHR ''&'' \<notin> set v)"

lemma getlines_Nil [simp]: "getlines d [] = []"
  by (simp add: getlines.simps)

lemma getlines_last: "d \<notin> set p \<Longrightarrow> p \<noteq> [] \<Longrightarrow> getlines d p = [p]"
  by (simp add: getlines.simps [of d p] takeWhile_absent dropWhile_absent)

lemma getlines_cons: "d \<notin> set p \<Longrightarrow> getlines d (p @ d # s) = p # getlines d s"
  by (simp add: getlines.simps [of d "p @ d # s"] takeWhile_cut dropWhile_cut)

lemma getlines_query_text:
  "params_ok kvs \<Longrightarrow> getlines (CHR ''&'') (query_text kvs) = map param_text kvs"
proof (induction kvs rule: query_text.induct)
  case (2 kv)
  then show ?case by (simp add: getlines_last params_ok_def param_text_def case_prod_beta)
next
  case (3 kv kw kvs)
  then have "params_ok (kw # kvs)" "CHR ''&'' \<notin> set (param_text kv)"
    by (auto simp: params_ok_def param_text_def case_prod_beta)
  with 3 show ?case by (simp add: getlines_cons)
qed simp

lemma add_params_frame [simp]:
  "orig_request (add_params ps q) = orig_request q"
  "resources (add_params ps q) = resources q"
  by (induction ps arbitrary: q) (simp_all add: add_queryvalue_def Let_def)

lemma add_params_text:
  "params_ok kvs \<Longrightarrow> querystring (add_params (map param_text kvs) q) = querystring q ++ map_of (rev kvs)"
proof (induction kvs arbitrary: q)
  case (Cons kv kvs)
  then have "split_string (param_text kv) (CHR ''='') = kv"
    by (cases kv) (simp add: param_text_def params_ok_def split_string_append)
  moreover have "params_ok kvs" using Cons.prems by (simp add: params_ok_def)
  ultimately show ?case
    using Cons.IH by (cases kv) (simp add: add_queryvalue_def Let_def map_add_assoc [symmetric])
qed simp

lemma handle_query_text:
  "params_ok kvs \<Longrightarrow>
     handle_query_parameters (query_text kvs) q = q\<lparr>querystring := querystring q ++ map_of (rev kvs)\<rparr>"
proof -
  assume ok: "params_ok kvs"
  let ?q = "add_params (map param_text kvs) q"
  have "?q = q\<lparr>querystring := querystring ?q\<rparr>"
    by (rule request.equality) simp_all
  with ok show ?thesis
    by (simp add: handle_query_parameters_def getlines_query_text add_params_text)
qed


subsection \<open>Serving\<close>

lemma serve_dynamic_no_match:
  "serve_dynamic h loc path req rep = Inr (False, r) \<longleftrightarrow>
     \<not> fst (match_pattern loc (fst (split_string path (CHR ''?'')))) \<and> r = rep"
  by (auto simp: serve_dynamic_def andthen_Inr_iff case_prod_beta)

lemma serve_dynamic_reply:
  assumes "serve_dynamic h loc path req rep = Inr (True, r)"
  shows "framed r \<and> (\<exists>q ss. h q new_stream = Inr ss \<and> orig_request q = req \<and>
    status r = stream_status ss \<and> content r = stream_text ss \<and>
    header_values ''Content-Type'' r = [content_type ss] \<and>
    (one_line (content_type ss) \<longrightarrow> headers_ok r))"
  using assms
  by (auto simp: serve_dynamic_def andthen_Inr_iff case_prod_beta framed_def header_values_def
      headers_ok_def header_ok_def handle_query_parameters_def new_request_def split: if_splits
      intro!: exI)

lemma serve_dynamic_match:
  assumes "CHR ''?'' \<notin> set res" and "match_pattern loc res = (True, ps)" and "params_ok kvs"
  shows "serve_dynamic h loc (res @ CHR ''?'' # query_text kvs) req rep =
    andthen (h \<lparr>orig_request = req, resources = ps, querystring = map_of (rev kvs)\<rparr> new_stream)
      (\<lambda>ss. Inr (True, rep\<lparr>content := stream_text ss, status := stream_status ss,
         rep_headers := [\<lparr>h_name = ''Content-Length'', h_value = to_string (length (stream_text ss))\<rparr>,
                         \<lparr>h_name = ''Content-Type'', h_value = content_type ss\<rparr>]\<rparr>))"
  using assms
  by (simp add: serve_dynamic_def split_string_append handle_query_text new_request_def)


subsection \<open>Properties\<close>

text \<open>
  C29 (serve_dynamic_request): a path made from the pattern of a resource and values for its
  parameters, with a query string made from keys and values, gets to the handler as that request:
  the parameters under their names, and for each key its last value. The reply is what the handler
  wrote, with its media type and its length.
\<close>

theorem serve_dynamic_request:
  assumes "values_for (tokenize loc) vs" "[] \<notin> set vs" "CHR ''?'' \<notin> set (fill (tokenize loc) vs)"
    and "params_ok kvs"
  shows "serve_dynamic h loc (fill (tokenize loc) vs @ CHR ''?'' # query_text kvs) req rep =
    andthen (h \<lparr>orig_request = req, resources = [param_names (tokenize loc) [\<mapsto>] vs],
        querystring = map_of (rev kvs)\<rparr> new_stream)
      (\<lambda>ss. Inr (True, rep\<lparr>content := stream_text ss, status := stream_status ss,
         rep_headers := [\<lparr>h_name = ''Content-Length'', h_value = to_string (length (stream_text ss))\<rparr>,
                         \<lparr>h_name = ''Content-Type'', h_value = content_type ss\<rparr>]\<rparr>))"
  using serve_dynamic_match [OF assms(3) match_pattern_filled [OF assms(1,2)] assms(4)] .

theorem serve_dynamic_request_witness:
  "serve_dynamic (\<lambda>q os. Inr (put_text (resource q ''name'' @ query q ''from'') (json os))) ''/greet/:name''
     ''/greet/bob?from=rome'' empty_request (stock_reply ok) =
   Inr (True, (stock_reply ok)\<lparr>content := ''bobrome'', status := ok,
     rep_headers := [\<lparr>h_name = ''Content-Length'', h_value = to_string (length ''bobrome'')\<rparr>,
                     \<lparr>h_name = ''Content-Type'', h_value = ''application/json''\<rparr>]\<rparr>)"
proof -
  have t: "tokenize ''/greet/:name'' = map Lit ''/greet/'' @ [Param ''name'']" by code_simp
  have f: "fill (tokenize ''/greet/:name'') [''bob''] @ CHR ''?'' # query_text [(''from'', ''rome'')] =
      ''/greet/bob?from=rome''"
    by code_simp
  have p: "param_names (tokenize ''/greet/:name'') = [''name'']" by code_simp
  show ?thesis
    using serve_dynamic_request [of "''/greet/:name''" "[''bob'']" "[(''from'', ''rome'')]"
        "\<lambda>q os. Inr (put_text (resource q ''name'' @ query q ''from'') (json os))"
        empty_request "stock_reply ok", unfolded f p]
    by (simp add: t values_for_def params_ok_def resource_def query_def put_text_def json_def new_stream_def)
qed

end
