(* ===== verification/Path_Router.thy ===== *)
theory Path_Router
  imports Url Static_Content Dynamic_Content "HOL-Library.Multiset"
begin

section \<open>The router (\<open>src/lib/path_router.cpp\<close>, \<open>src/lib/path_router.hpp\<close>)\<close>

text \<open>
  Resources by method, each list sorted by decreasing length of location, and the handling of a
  request. \<^verbatim>\<open>std::sort\<close> is a parameter \<open>srt\<close> with the contract of the standard (\<open>std_sort\<close>): it
  permutes the list into order and promises nothing on entries whose locations are equally long.
\<close>

text \<open>\<^verbatim>\<open>std::variant<static_content, dynamic_content>\<close>\<close>

datatype handler =
    static_content string
  | dynamic_content string handler_fn

definition get :: "handler_fn \<Rightarrow> handler" where "get h = dynamic_content ''GET'' h"
definition post :: "handler_fn \<Rightarrow> handler" where "post h = dynamic_content ''POST'' h"
definition put :: "handler_fn \<Rightarrow> handler" where "put h = dynamic_content ''PUT'' h"

fun handler_method :: "handler \<Rightarrow> string" where
  "handler_method (static_content root) = ''GET''"
| "handler_method (dynamic_content action h) = action"

record resource_entry =
  location :: string
  entry_handler :: handler

type_synonym sorter = "resource_entry list \<Rightarrow> resource_entry list"
type_synonym router = "string \<rightharpoonup> resource_entry list"

text \<open>\<^verbatim>\<open>resources[method]\<close> creates an empty list for a method that has none.\<close>

definition add :: "sorter \<Rightarrow> string \<Rightarrow> handler \<Rightarrow> router \<Rightarrow> router" where
  "add srt loc h R =
     (let handlers = (case R (handler_method h) of Some es \<Rightarrow> es | None \<Rightarrow> []) in
      R(handler_method h \<mapsto> srt (handlers @ [\<lparr>location = loc, entry_handler = h\<rparr>])))"

fun serve_entry :: "file_history \<Rightarrow> resource_entry \<Rightarrow> string \<Rightarrow> http_request \<Rightarrow> reply \<Rightarrow>
    exn + bool \<times> reply" where
  "serve_entry fsys e path req rep =
     (case entry_handler e of
        static_content root \<Rightarrow> serve_static fsys root (location e) path req rep
      | dynamic_content action h \<Rightarrow> serve_dynamic h (location e) path req rep)"

text \<open>The loop of \<^verbatim>\<open>operator()\<close> over the resources of the method, and what follows it\<close>

fun try_entries :: "('e \<Rightarrow> reply \<Rightarrow> exn + bool \<times> reply) \<Rightarrow> 'e list \<Rightarrow> reply \<Rightarrow> exn + reply" where
  "try_entries serve [] rep = Inr (stock_reply not_found)"
| "try_entries serve (e # es) rep =
     andthen (serve e rep) (\<lambda>(matched, rep'). if matched then Inr rep' else try_entries serve es rep')"

definition route :: "file_history \<Rightarrow> router \<Rightarrow> http_request \<Rightarrow> reply \<Rightarrow> exn + reply" where
  "route fsys R req rep =
     (let (decoded, request_path) = url_decode (req_uri req) in
      if \<not> decoded then Inr (stock_reply bad_request)
      else if request_path = [] \<or> hd request_path \<noteq> CHR ''/'' \<or> find_str ''..'' request_path \<noteq> None
      then Inr (stock_reply bad_request)
      else
        (let meth = (if req_method req = ''HEAD'' then ''GET'' else req_method req) in
         case R meth of
           None \<Rightarrow> Inr (stock_reply not_found)
         | Some es \<Rightarrow> try_entries (\<lambda>e r. serve_entry fsys e request_path req r) es rep))"


subsection \<open>The resources\<close>

text \<open>The resources after a list of additions to an empty router\<close>

definition resources_after :: "sorter \<Rightarrow> (string \<times> handler) list \<Rightarrow> router" where
  "resources_after srt adds = fold (\<lambda>(loc, h). add srt loc h) adds Map.empty"

definition entries_for :: "string \<Rightarrow> (string \<times> handler) list \<Rightarrow> resource_entry list" where
  "entries_for m adds = map (\<lambda>(loc, h). \<lparr>location = loc, entry_handler = h\<rparr>)
     (filter (\<lambda>(loc, h). handler_method h = m) adds)"

lemma resources_after_snoc:
  "resources_after srt (adds @ [(loc, h)]) = add srt loc h (resources_after srt adds)"
  by (simp add: resources_after_def)

lemma add_apply:
  "add srt loc h R m =
     (if m = handler_method h
      then Some (srt (case_option [] id (R m) @ [\<lparr>location = loc, entry_handler = h\<rparr>])) else R m)"
  by (simp add: add_def Let_def split: option.split)

lemma resources_after_None:
  "resources_after srt adds m = None \<longleftrightarrow> (\<forall>(loc, h) \<in> set adds. handler_method h \<noteq> m)"
proof (induction adds rule: rev_induct)
  case (snoc a adds)
  then show ?case by (cases a) (auto simp: resources_after_snoc add_apply)
qed (simp add: resources_after_def)


subsection \<open>The contract of the sort\<close>

definition loc_len :: "resource_entry \<Rightarrow> nat" where
  "loc_len e = length (location e)"

definition by_length :: "resource_entry list \<Rightarrow> bool" where
  "by_length es \<longleftrightarrow> sorted_wrt (\<lambda>a b. loc_len a \<ge> loc_len b) es"

locale std_sort =
  fixes srt :: sorter
  assumes mset_srt: "mset (srt es) = mset es"
    and srt_sorted: "by_length (srt es)"
begin

lemma set_srt: "set (srt es) = set es"
  by (metis mset_srt set_mset_mset)

text \<open>What a list of additions leaves for a method: those of that method, in order of length\<close>

lemma resources_after_entries:
  "resources_after srt adds m = Some es \<Longrightarrow> by_length es \<and> mset es = mset (entries_for m adds)"
proof (induction adds arbitrary: es rule: rev_induct)
  case Nil
  then show ?case by (simp add: resources_after_def)
next
  case (snoc a adds)
  obtain loc h where a: "a = (loc, h)" by (cases a)
  show ?case
  proof (cases "resources_after srt adds m")
    case None
    then have "entries_for m adds = []"
      by (auto simp: resources_after_None entries_for_def filter_empty_conv)
    moreover from this None a snoc.prems
    have "handler_method h = m" "es = srt [\<lparr>location = loc, entry_handler = h\<rparr>]"
      by (auto simp: resources_after_snoc add_apply split: if_splits)
    ultimately show ?thesis
      using srt_sorted mset_srt a by (simp add: entries_for_def del: mset_single_iff_right)
  next
    case (Some es')
    with snoc.prems snoc.IH [OF Some] a show ?thesis
      by (auto simp: resources_after_snoc add_apply entries_for_def srt_sorted mset_srt split: if_splits)
  qed
qed

end

text \<open>Insertion sort, which the library uses on short vectors\<close>

fun insert_entry :: "resource_entry \<Rightarrow> resource_entry list \<Rightarrow> resource_entry list" where
  "insert_entry e [] = [e]"
| "insert_entry e (x # xs) =
     (if loc_len e > loc_len x then e # x # xs else x # insert_entry e xs)"

definition insertion_sort :: sorter where
  "insertion_sort es = foldl (\<lambda>acc e. insert_entry e acc) [] es"

lemma mset_insert_entry: "mset (insert_entry e es) = add_mset e (mset es)"
  by (induction es) auto

lemma set_insert_entry: "set (insert_entry e es) = insert e (set es)"
  by (induction es) auto

lemma by_length_insert_entry: "by_length es \<Longrightarrow> by_length (insert_entry e es)"
  by (induction es) (auto simp: by_length_def set_insert_entry)

lemma insertion_sort_acc:
  "by_length acc \<Longrightarrow> by_length (foldl (\<lambda>acc e. insert_entry e acc) acc es) \<and>
     mset (foldl (\<lambda>acc e. insert_entry e acc) acc es) = mset acc + mset es"
  by (induction es arbitrary: acc) (simp_all add: by_length_insert_entry mset_insert_entry)

interpretation entry_sort: std_sort insertion_sort
proof (unfold_locales, goal_cases)
  case (1 es)
  show ?case
    using insertion_sort_acc [of "[]" es] by (simp add: insertion_sort_def by_length_def)
next
  case (2 es)
  show ?case
    using insertion_sort_acc [of "[]" es] by (simp add: insertion_sort_def by_length_def)
qed


subsection \<open>The contract of the resources\<close>

text \<open>
  What the loop of the router relies on: a resource that does not match leaves the reply as it is,
  and one that matches never says that it did not. Then the loop is a search for the first match.
\<close>

locale entry_server =
  fixes serve :: "'e \<Rightarrow> reply \<Rightarrow> exn + bool \<times> reply"
    and matches :: "'e \<Rightarrow> bool"
  assumes serve_no_match: "\<not> matches e \<Longrightarrow> serve e rep = Inr (False, rep)"
    and serve_match: "matches e \<Longrightarrow> serve e rep \<noteq> Inr (False, rep')"
begin

lemma serve_cases:
  assumes "matches e"
  obtains (throws) x where "serve e rep = Inl x" | (served) r where "serve e rep = Inr (True, r)"
  using assms serve_match [of e rep] by (cases "serve e rep") auto

lemma try_entries_find:
  "try_entries serve es rep =
     (case List.find matches es of
        None \<Rightarrow> Inr (stock_reply not_found)
      | Some e \<Rightarrow> andthen (serve e rep) (\<lambda>(m, r). Inr r))"
proof (induction es)
  case (Cons e es)
  show ?case
  proof (cases "matches e")
    case True
    then show ?thesis by (cases rule: serve_cases [of e rep]) (use True in simp_all)
  next
    case False
    with Cons show ?thesis by (simp add: serve_no_match)
  qed
qed simp

lemma try_entries_not_found:
  "\<forall>e \<in> set es. \<not> matches e \<Longrightarrow> try_entries serve es rep = Inr (stock_reply not_found)"
  by (induction es) (simp_all add: serve_no_match)

end

text \<open>Resources that keep a promise about the reply they fill, if they are admissible\<close>

locale promising_server = entry_server +
  fixes admissible :: "'a \<Rightarrow> bool"
    and promise :: "reply \<Rightarrow> bool"
  assumes serve_promise: "admissible e \<Longrightarrow> serve e rep = Inr (True, r) \<Longrightarrow> promise r"
    and promise_not_found: "promise (stock_reply not_found)"
begin

lemma try_entries_promise:
  assumes "\<forall>e \<in> set es. admissible e" and "try_entries serve es rep = Inr r"
  shows "promise r"
  using assms
proof (induction es)
  case Nil
  then show ?case using promise_not_found by auto
next
  case (Cons e es)
  show ?case
  proof (cases "matches e")
    case True
    then show ?thesis
      by (cases rule: serve_cases [of e rep]) (use Cons.prems serve_promise in auto)
  next
    case False
    with Cons show ?thesis by (simp add: serve_no_match)
  qed
qed

end


subsection \<open>The resources keep the contract\<close>

text \<open>When a resource takes a path, the query string aside for a dynamic one\<close>

fun takes :: "resource_entry \<Rightarrow> string \<Rightarrow> bool" where
  "takes e path =
     (case entry_handler e of
        static_content root \<Rightarrow> prefix (location e) path
      | dynamic_content action h \<Rightarrow> fst (match_pattern (location e) (fst (split_string path (CHR ''?'')))))"

declare takes.simps [simp del] serve_entry.simps [simp del]

lemmas entry_simps = takes.simps serve_entry.simps

interpretation entries: entry_server "\<lambda>e r. serve_entry fsys e path req r" "\<lambda>e. takes e path"
  for fsys path req
proof (unfold_locales, goal_cases)
  case (1 e rep)
  then show ?case
    by (auto simp: entry_simps serve_static_no_match serve_dynamic_no_match split: handler.splits)
next
  case (2 e rep rep')
  then show ?case
    by (auto simp: entry_simps serve_static_no_match serve_dynamic_no_match split: handler.splits)
qed

text \<open>The application sets no media type with a line break in it.\<close>

definition handler_plain :: "handler_fn \<Rightarrow> bool" where
  "handler_plain h \<longleftrightarrow> (\<forall>q ss. h q new_stream = Inr ss \<longrightarrow> one_line (content_type ss))"

fun entry_plain :: "resource_entry \<Rightarrow> bool" where
  "entry_plain e =
     (case entry_handler e of static_content root \<Rightarrow> True | dynamic_content action h \<Rightarrow> handler_plain h)"

interpretation plain_entries: promising_server "\<lambda>e r. serve_entry fsys e path req r"
  "\<lambda>e. takes e path" entry_plain "\<lambda>r. one_line (req_uri req) \<longrightarrow> headers_ok r"
  for fsys path req
proof (unfold_locales, goal_cases)
  case (1 e rep r)
  show ?case
  proof (cases "entry_handler e")
    case (static_content root)
    with 1 show ?thesis by (auto simp: entry_simps dest: serve_static_reply)
  next
    case (dynamic_content action h)
    with 1 have "serve_dynamic h (location e) path req rep = Inr (True, r)" "handler_plain h"
      by (simp_all add: entry_simps)
    with serve_dynamic_reply [OF this(1)] show ?thesis unfolding handler_plain_def by metis
  qed
qed simp

interpretation framed_entries: promising_server "\<lambda>e r. serve_entry fsys e path req r"
  "\<lambda>e. takes e path" "\<lambda>e. True" "\<lambda>r. one_line (req_uri req) \<and> req_method req \<noteq> ''HEAD'' \<longrightarrow> framed r"
  for fsys path req
proof (unfold_locales, goal_cases)
  case (1 e rep r)
  then show ?case
    by (cases "entry_handler e") (auto simp: entry_simps dest: serve_static_reply serve_dynamic_reply)
qed simp


subsection \<open>Routing\<close>

text \<open>The method whose resources are searched\<close>

definition routed_method :: "http_request \<Rightarrow> string" where
  "routed_method req = (if req_method req = ''HEAD'' then ''GET'' else req_method req)"

definition path_ok :: "string \<Rightarrow> bool" where
  "path_ok p \<longleftrightarrow> p \<noteq> [] \<and> hd p = CHR ''/'' \<and> \<not> sublist ''..'' p"

definition entries_of :: "router \<Rightarrow> string \<Rightarrow> resource_entry list" where
  "entries_of R m = (case R m of Some es \<Rightarrow> es | None \<Rightarrow> [])"

lemma route_bad_uri: "\<not> fst (url_decode (req_uri req)) \<Longrightarrow> route fsys R req rep = Inr (stock_reply bad_request)"
  by (simp add: route_def case_prod_beta)

lemma route_bad_path:
  "url_decode (req_uri req) = (True, p) \<Longrightarrow> \<not> path_ok p \<Longrightarrow>
     route fsys R req rep = Inr (stock_reply bad_request)"
  by (auto simp: route_def path_ok_def find_str_None_iff)

lemma route_path:
  "url_decode (req_uri req) = (True, p) \<Longrightarrow> path_ok p \<Longrightarrow>
     route fsys R req rep =
       try_entries (\<lambda>e r. serve_entry fsys e p req r) (entries_of R (routed_method req)) rep"
  by (auto simp: route_def path_ok_def find_str_None_iff entries_of_def routed_method_def Let_def
      split: option.split)

lemma route_find:
  "url_decode (req_uri req) = (True, p) \<Longrightarrow> path_ok p \<Longrightarrow>
     route fsys R req rep =
       (case List.find (\<lambda>e. takes e p) (entries_of R (routed_method req)) of
          None \<Rightarrow> Inr (stock_reply not_found)
        | Some e \<Rightarrow> andthen (serve_entry fsys e p req rep) (\<lambda>(m, r). Inr r))"
  by (simp add: route_path entries.try_entries_find)

text \<open>The first match of a list in order of length is a longest match.\<close>

lemma find_by_length:
  "by_length es \<Longrightarrow> List.find P es = Some e \<Longrightarrow> e \<in> set es \<and> P e \<and> (\<forall>x \<in> set es. P x \<longrightarrow> loc_len x \<le> loc_len e)"
  by (induction es) (auto simp: by_length_def split: if_splits)

text \<open>Only what lies below the roots of its static resources is read.\<close>

fun entry_agrees :: "file_history \<Rightarrow> file_history \<Rightarrow> resource_entry \<Rightarrow> bool" where
  "entry_agrees f g e =
     (case entry_handler e of
        static_content root \<Rightarrow> NUL \<notin> set root \<and> agree_below root f g
      | dynamic_content action h \<Rightarrow> True)"

lemma serve_entry_below:
  "entry_agrees f g e \<Longrightarrow> path_ok p \<Longrightarrow> serve_entry f e p req rep = serve_entry g e p req rep"
  by (auto simp: entry_simps path_ok_def serve_static_below split: handler.splits)

lemma route_below:
  assumes "\<forall>e \<in> set (entries_of R (routed_method req)). entry_agrees f g e"
  shows "route f R req rep = route g R req rep"
proof (cases "fst (url_decode (req_uri req)) \<and> path_ok (snd (url_decode (req_uri req)))")
  case True
  then obtain p where p: "url_decode (req_uri req) = (True, p)" "path_ok p"
    by (cases "url_decode (req_uri req)") simp
  show ?thesis
  proof (cases "List.find (\<lambda>e. takes e p) (entries_of R (routed_method req))")
    case (Some e)
    then have "e \<in> set (entries_of R (routed_method req))" by (auto simp: find_Some_iff)
    with assms have "serve_entry f e p req rep = serve_entry g e p req rep"
      using serve_entry_below [OF _ p(2)] by blast
    with Some show ?thesis by (simp add: route_find [OF p])
  qed (simp add: route_find [OF p])
next
  case False
  obtain d p where u: "url_decode (req_uri req) = (d, p)" by fastforce
  with False show ?thesis by (cases d) (simp_all add: route_bad_path [of req p] route_bad_uri)
qed


subsection \<open>The router after a list of additions\<close>

context std_sort
begin

lemma entries_of_resources:
  "by_length (entries_of (resources_after srt adds) m) \<and>
     mset (entries_of (resources_after srt adds) m) = mset (entries_for m adds)"
proof (cases "resources_after srt adds m")
  case None
  then have "entries_for m adds = []"
    by (auto simp: resources_after_None entries_for_def filter_empty_conv)
  with None show ?thesis by (simp add: entries_of_def by_length_def)
next
  case (Some es)
  then show ?thesis using resources_after_entries [OF Some] by (simp add: entries_of_def)
qed

lemma set_entries_of_resources:
  "set (entries_of (resources_after srt adds) m) = set (entries_for m adds)"
  by (metis entries_of_resources set_mset_mset)

lemma route_first:
  assumes "url_decode (req_uri req) = (True, p)" "path_ok p"
    and "e \<in> set (entries_for (routed_method req) adds)" "takes e p"
  shows "\<exists>e' \<in> set (entries_for (routed_method req) adds). takes e' p \<and>
    (\<forall>x \<in> set (entries_for (routed_method req) adds). takes x p \<longrightarrow> loc_len x \<le> loc_len e') \<and>
    route fsys (resources_after srt adds) req rep =
      andthen (serve_entry fsys e' p req rep) (\<lambda>(m, r). Inr r)"
proof -
  let ?es = "entries_of (resources_after srt adds) (routed_method req)"
  note s = set_entries_of_resources [of adds "routed_method req"]
  from assms(3,4) s have "List.find (\<lambda>e. takes e p) ?es \<noteq> None"
    by (auto simp: find_None_iff)
  then obtain e' where e': "List.find (\<lambda>e. takes e p) ?es = Some e'" by blast
  with entries_of_resources have "e' \<in> set ?es \<and> takes e' p \<and> (\<forall>x \<in> set ?es. takes x p \<longrightarrow> loc_len x \<le> loc_len e')"
    by (intro find_by_length) auto
  then show ?thesis
    using e' s by (intro bexI [of _ e']) (simp_all add: route_find [OF assms(1,2)])
qed

text \<open>Where one resource only takes a path, that one serves it.\<close>

lemma route_only:
  assumes "url_decode (req_uri req) = (True, p)" "path_ok p"
    and "e \<in> set (entries_for (routed_method req) adds)" "takes e p"
    and "\<And>x. x \<in> set (entries_for (routed_method req) adds) \<Longrightarrow> takes x p \<Longrightarrow> loc_len e \<le> loc_len x \<Longrightarrow> x = e"
  shows "route fsys (resources_after srt adds) req rep = andthen (serve_entry fsys e p req rep) (\<lambda>(m, r). Inr r)"
  using route_first [OF assms(1-4), of fsys rep] assms(3-5) by metis

lemma route_none:
  assumes "url_decode (req_uri req) = (True, p)" "path_ok p"
    and "\<forall>x \<in> set (entries_for (routed_method req) adds). \<not> takes x p"
  shows "route fsys (resources_after srt adds) req rep = Inr (stock_reply not_found)"
  using assms(3) set_entries_of_resources [of adds "routed_method req"]
  by (simp add: route_path [OF assms(1,2)] entries.try_entries_not_found)

end

lemma resources_confined:
  assumes "std_sort srt"
    and "\<And>loc root. (loc, static_content root) \<in> set adds \<Longrightarrow> NUL \<notin> set root"
    and "\<And>loc root t p. (loc, static_content root) \<in> set adds \<Longrightarrow> below root p \<Longrightarrow> f t p = g t p"
  shows "route f (resources_after srt adds) req rep = route g (resources_after srt adds) req rep"
proof (rule route_below, rule ballI)
  fix e assume "e \<in> set (entries_of (resources_after srt adds) (routed_method req))"
  then have "(location e, entry_handler e) \<in> set adds"
    unfolding std_sort.set_entries_of_resources [OF assms(1)] by (auto simp: entries_for_def)
  then show "entry_agrees f g e"
    using assms(2,3) by (cases "entry_handler e") (auto simp: agree_below_def)
qed

text \<open>
  A HEAD request for a path that no resource takes gets the page of the 404 reply, and the handler of
  a dynamic resource has its body sent.
\<close>

lemma head_not_found_has_body:
  "route fsys Map.empty (empty_request\<lparr>req_method := ''HEAD'', req_uri := ''/''\<rparr>) rep =
     Inr (stock_reply not_found)"
  "content (stock_reply not_found) \<noteq> []"
proof -
  have "url_decode ''/'' = (True, ''/'')" "path_ok ''/''"
    by (code_simp, simp add: path_ok_def sublist_Cons_right)
  then show "route fsys Map.empty (empty_request\<lparr>req_method := ''HEAD'', req_uri := ''/''\<rparr>) rep =
     Inr (stock_reply not_found)"
    by (simp add: route_path entries_of_def)
qed (simp add: stock_page_def)

lemma head_dynamic_same_body:
  "serve_dynamic h loc p (req\<lparr>req_method := ''HEAD''\<rparr>) rep = Inr (True, r) \<Longrightarrow> framed r"
  using serve_dynamic_reply by blast

text \<open>
  A reply that is safe to send to a request: its headers stay on their lines, and unless the request
  is a HEAD request it announces the length of its body.
\<close>

definition reply_safe :: "http_request \<Rightarrow> reply \<Rightarrow> bool" where
  "reply_safe req rep \<longleftrightarrow> headers_ok rep \<and> (req_method req \<noteq> ''HEAD'' \<longrightarrow> framed rep)"

lemma reply_safe_stock [simp]: "reply_safe req (stock_reply st)"
  by (simp add: reply_safe_def)

lemma route_safe:
  assumes "route fsys R req rep = Inr r" "one_line (req_uri req)"
    and "\<forall>e \<in> set (entries_of R (routed_method req)). entry_plain e"
  shows "reply_safe req r"
proof (cases "fst (url_decode (req_uri req)) \<and> path_ok (snd (url_decode (req_uri req)))")
  case True
  then obtain p where p: "url_decode (req_uri req) = (True, p)" "path_ok p"
    by (cases "url_decode (req_uri req)") simp
  from assms(1) have "try_entries (\<lambda>e r. serve_entry fsys e p req r) (entries_of R (routed_method req)) rep = Inr r"
    by (simp add: route_path [OF p])
  then show ?thesis
    using plain_entries.try_entries_promise [OF assms(3)]
      framed_entries.try_entries_promise [of "entries_of R (routed_method req)"] assms(2)
    by (auto simp: reply_safe_def)
next
  case False
  obtain d p where u: "url_decode (req_uri req) = (d, p)" by fastforce
  with False assms(1) show ?thesis
    by (cases d) (auto simp: route_bad_path [of req p] route_bad_uri)
qed


subsection \<open>Properties\<close>

text \<open>
  After any sequence of additions the resources of a method are exactly
  those added for it, each as often as it was added, in order of decreasing length of location.
\<close>

theorem added_resources_sorted:
  assumes "std_sort srt"
  shows "by_length (entries_of (resources_after srt adds) m) \<and>
    mset (entries_of (resources_after srt adds) m) = mset (entries_for m adds)"
  by (rule std_sort.entries_of_resources [OF assms])

theorem added_resources_sorted_witness:
  "by_length (entries_of (resources_after insertion_sort
       [(''/'', static_content ''a''), (''/x'', static_content ''b'')]) ''GET'') \<and>
   mset (entries_of (resources_after insertion_sort
       [(''/'', static_content ''a''), (''/x'', static_content ''b'')]) ''GET'') =
     mset (entries_for ''GET'' [(''/'', static_content ''a''), (''/x'', static_content ''b'')])"
  by (rule added_resources_sorted) (rule entry_sort.std_sort_axioms)

text \<open>
  C18 (route_longest): of the resources that take the path of a request, whatever the order in which
  they were added, one with the longest location serves it.
\<close>

theorem route_longest:
  assumes "std_sort srt" and "url_decode (req_uri req) = (True, p)" "path_ok p"
    and "e \<in> set (entries_for (routed_method req) adds)" "takes e p"
  shows "\<exists>e' \<in> set (entries_for (routed_method req) adds). takes e' p \<and>
    (\<forall>x \<in> set (entries_for (routed_method req) adds). takes x p \<longrightarrow> loc_len x \<le> loc_len e') \<and>
    route fsys (resources_after srt adds) req rep =
      andthen (serve_entry fsys e' p req rep) (\<lambda>(m, r). Inr r)"
  by (rule std_sort.route_first [OF assms])

theorem route_longest_witness:
  "route (\<lambda>t p. Inr Missing) (resources_after insertion_sort [(''/'', static_content ''a''), (''/x'', static_content ''b'')])
     (empty_request\<lparr>req_method := ''GET'', req_uri := ''/x''\<rparr>) (stock_reply ok) =
   andthen (serve_entry (\<lambda>t p. Inr Missing) \<lparr>location = ''/x'', entry_handler = static_content ''b''\<rparr> ''/x''
     (empty_request\<lparr>req_method := ''GET'', req_uri := ''/x''\<rparr>) (stock_reply ok)) (\<lambda>(m, r). Inr r)"
proof -
  have "url_decode ''/x'' = (True, ''/x'')" by code_simp
  moreover have "path_ok ''/x''" by (simp add: path_ok_def sublist_Cons_right)
  ultimately show ?thesis
    using route_longest [OF entry_sort.std_sort_axioms, of "empty_request\<lparr>req_method := ''GET'', req_uri := ''/x''\<rparr>"
        "''/x''" "\<lparr>location = ''/x'', entry_handler = static_content ''b''\<rparr>"
        "[(''/'', static_content ''a''), (''/x'', static_content ''b'')]" "\<lambda>t p. Inr Missing" "stock_reply ok"]
    by (auto simp: entries_for_def routed_method_def takes.simps loc_len_def)
qed

text \<open>
  What the router does with every request: 400 when the URI cannot be decoded, or
  the path is not absolute or has two dots in a row; 404 when no resource of the method (GET for
  HEAD) takes the path; otherwise the answer of the first that does.
\<close>

theorem route_outcome:
  "route fsys R req rep =
     (let (decoded, p) = url_decode (req_uri req) in
      if decoded \<and> path_ok p then
        (case List.find (\<lambda>e. takes e p) (entries_of R (routed_method req)) of
           None \<Rightarrow> Inr (stock_reply not_found)
         | Some e \<Rightarrow> andthen (serve_entry fsys e p req rep) (\<lambda>(m, r). Inr r))
      else Inr (stock_reply bad_request))"
proof -
  obtain d p where u: "url_decode (req_uri req) = (d, p)" by fastforce
  then show ?thesis
    by (cases d; cases "path_ok p") (simp_all add: route_bad_uri route_bad_path route_find)
qed

text \<open>
  C13 (route_confined): whatever the URI of a request, the router reads nothing outside the roots of
  its static resources: two file systems that agree below every root give the same answer.
\<close>

theorem route_confined:
  assumes "std_sort srt"
    and "\<And>loc root. (loc, static_content root) \<in> set adds \<Longrightarrow> NUL \<notin> set root"
    and "\<And>loc root t p. (loc, static_content root) \<in> set adds \<Longrightarrow> below root p \<Longrightarrow> f t p = g t p"
  shows "route f (resources_after srt adds) req rep = route g (resources_after srt adds) req rep"
  by (rule resources_confined [OF assms])

theorem route_confined_witness:
  "route (\<lambda>t p. Inr Missing) (resources_after insertion_sort [(''/'', static_content ''/srv'')])
     (empty_request\<lparr>req_method := ''GET'', req_uri := ''/%2e./etc''\<rparr>) (stock_reply ok) =
   route (\<lambda>t p. if p = ''/etc'' then Inr (Special (Some [])) else Inr Missing)
     (resources_after insertion_sort [(''/'', static_content ''/srv'')])
     (empty_request\<lparr>req_method := ''GET'', req_uri := ''/%2e./etc''\<rparr>) (stock_reply ok)"
proof (rule route_confined [OF entry_sort.std_sort_axioms])
  show "Inr Missing = (if p = ''/etc'' then Inr (Special (Some [])) else Inr Missing)"
    if "(loc, static_content root) \<in> set [(''/'', static_content ''/srv'')]" "below root p" for loc root p
    using that by (auto simp: below_def path_append_def split: if_splits)
qed auto

end
