(* ===== verification/Https_Server.thy ===== *)
theory Https_Server
  imports F16_Prelude
begin

section \<open>TLS settings (\<open>src/lib/https_server.hpp\<close>, \<open>src/lib/https_server.cpp\<close>, \<open>src/server/main.cpp\<close>)\<close>

text \<open>
  The settings of an HTTPS server: their defaults, how the configuration file sets them, and the
  calls that the constructor of \<^verbatim>\<open>https_server\<close> makes on its \<^verbatim>\<open>ssl::context\<close>. What those calls do is
  not modelled, so the constructor is the list of them.
\<close>

datatype ssl_proto = sslv2 | sslv3 | tlsv1 | tlsv11 | tlsv12 | tlsv13

record ssl_settings =
  certificate :: string
  certificate_key :: string
  dhparam :: string
  password :: string
  protocols :: "ssl_proto set"
  ciphers :: string
  prefer_server_ciphers :: bool
  client_certificate :: string
  session_timeout_secs :: int
  session_cache :: bool
  session_cache_size :: int

definition default_settings :: ssl_settings where
  "default_settings = \<lparr>certificate = [], certificate_key = [], dhparam = [], password = [],
     protocols = {tlsv1, tlsv11, tlsv12, tlsv13}, ciphers = [], prefer_server_ciphers = False,
     client_certificate = [], session_timeout_secs = -1, session_cache = False,
     session_cache_size = -1\<rparr>"

definition protocol_from_string :: "string \<Rightarrow> exn + ssl_proto" where
  "protocol_from_string s =
     (if s = ''SSLv2'' then Inr sslv2
      else if s = ''SSLv3'' then Inr sslv3
      else if s = ''TLSv1'' then Inr tlsv1
      else if s = ''TLSv1.1'' then Inr tlsv11
      else if s = ''TLSv1.2'' then Inr tlsv12
      else if s = ''TLSv1.3'' then Inr tlsv13
      else Inl (Invalid_argument (''Unknown protocol: '' @ s)))"

text \<open>
  What the JSON library finds for a key: a value of the type that the code asks for, or another one, on which
  the library throws. A key that is absent is \<open>None\<close>.
\<close>

datatype 'a typed = Typed 'a | Mistyped

fun convert :: "'a typed \<Rightarrow> exn + 'a" where
  "convert (Typed x) = Inr x"
| "convert Mistyped = Inl Json_error"

lemma convert_Inr [simp]: "convert t = Inr x \<longleftrightarrow> t = Typed x"
  by (cases t) simp_all

text \<open>\<^verbatim>\<open>section.value(key, default)\<close>\<close>

definition json_value :: "'a typed option \<Rightarrow> 'a \<Rightarrow> exn + 'a" where
  "json_value v d = (case v of Some t \<Rightarrow> convert t | None \<Rightarrow> Inr d)"

lemma json_value_Inr: "json_value v d = Inr x \<longleftrightarrow> v = None \<and> x = d \<or> v = Some (Typed x)"
  by (auto simp: json_value_def split: option.split)

lemma json_value_simps [simp]:
  "json_value None d = Inr d" "json_value (Some (Typed x)) d = Inr x"
  "json_value (Some Mistyped) d = Inl Json_error"
  by (simp_all add: json_value_def)

text \<open>The \<open>ssl\<close> section of a server in the configuration file, with the keys it has\<close>

record ssl_section =
  cfg_certificate :: "string typed option"
  cfg_certificate_key :: "string typed option"
  cfg_dhparam :: "string typed option"
  cfg_password :: "string typed option"
  cfg_protocols :: "string typed list option"
  cfg_ciphers :: "string typed option"
  cfg_prefer_server_ciphers :: "bool typed option"
  cfg_verify_client :: "bool typed option"
  cfg_client_certificate :: "string typed option"
  cfg_session_timeout_secs :: "int typed option"
  cfg_session_cache :: "bool typed option"
  cfg_session_cache_size :: "int typed option"

fun insert_protocols :: "string typed list \<Rightarrow> ssl_settings \<Rightarrow> exn + ssl_settings" where
  "insert_protocols [] s = Inr s"
| "insert_protocols (t # ps) s =
     andthen (convert t) (\<lambda>p.
     andthen (protocol_from_string p) (\<lambda>pr. insert_protocols ps (s\<lparr>protocols := insert pr (protocols s)\<rparr>)))"

definition read_files :: "ssl_section \<Rightarrow> ssl_settings \<Rightarrow> exn + ssl_settings" where
  "read_files sec s =
     andthen (json_value (cfg_certificate sec) []) (\<lambda>cert.
     andthen (json_value (cfg_certificate_key sec) []) (\<lambda>key.
     andthen (json_value (cfg_dhparam sec) []) (\<lambda>dh.
     andthen (json_value (cfg_password sec) []) (\<lambda>pw.
       Inr (s\<lparr>certificate := cert, certificate_key := key, dhparam := dh, password := pw\<rparr>)))))"

definition read_protocols :: "ssl_section \<Rightarrow> ssl_settings \<Rightarrow> exn + ssl_settings" where
  "read_protocols sec s = (case cfg_protocols sec of Some ps \<Rightarrow> insert_protocols ps s | None \<Rightarrow> Inr s)"

definition read_ciphers :: "ssl_section \<Rightarrow> ssl_settings \<Rightarrow> exn + ssl_settings" where
  "read_ciphers sec s =
     andthen (json_value (cfg_ciphers sec) []) (\<lambda>cs.
     andthen (json_value (cfg_prefer_server_ciphers sec) False) (\<lambda>prefer.
       Inr (s\<lparr>ciphers := cs, prefer_server_ciphers := prefer\<rparr>)))"

definition read_client_certificate :: "ssl_section \<Rightarrow> ssl_settings \<Rightarrow> exn + ssl_settings" where
  "read_client_certificate sec s =
     andthen (json_value (cfg_verify_client sec) False) (\<lambda>verify.
       if verify
       then andthen (json_value (cfg_client_certificate sec) []) (\<lambda>f. Inr (s\<lparr>client_certificate := f\<rparr>))
       else Inr s)"

definition read_session :: "ssl_section \<Rightarrow> ssl_settings \<Rightarrow> exn + ssl_settings" where
  "read_session sec s =
     andthen (json_value (cfg_session_timeout_secs sec) (-1)) (\<lambda>timeout.
     andthen (json_value (cfg_session_cache sec) False) (\<lambda>cache.
     andthen (json_value (cfg_session_cache_size sec) (-1)) (\<lambda>size.
       Inr (s\<lparr>session_timeout_secs := timeout, session_cache := cache, session_cache_size := size\<rparr>))))"

definition read_ssl_section :: "ssl_section \<Rightarrow> exn + ssl_settings" where
  "read_ssl_section sec =
     andthen (read_files sec default_settings) (\<lambda>s.
     andthen (read_protocols sec s) (\<lambda>s.
     andthen (read_ciphers sec s) (\<lambda>s.
     andthen (read_client_certificate sec s) (\<lambda>s.
       read_session sec s))))"

text \<open>The calls on the context; \<open>Set_options_of\<close> is \<^verbatim>\<open>set_options\<close> given a protocol.\<close>

datatype ssl_call =
    Default_workarounds_and_single_dh
  | Set_options_of ssl_proto
  | Set_cipher_list string
  | Server_cipher_preference
  | Set_password_callback string
  | Use_certificate_chain_file string
  | Use_private_key_file string
  | Use_tmp_dh_file string
  | Verify_peer_and_fail_without_certificate
  | Load_verify_file string
  | Session_cache_server
  | Session_cache_size int
  | Session_timeout int

text \<open>\<open>protos\<close> is the order in which the set of protocols is traversed.\<close>

definition setup_calls :: "ssl_proto list \<Rightarrow> ssl_settings \<Rightarrow> ssl_call list" where
  "setup_calls protos s =
     [Default_workarounds_and_single_dh] @
     map Set_options_of protos @
     (if ciphers s \<noteq> [] then [Set_cipher_list (ciphers s)] else []) @
     (if prefer_server_ciphers s then [Server_cipher_preference] else []) @
     (if password s \<noteq> [] then [Set_password_callback (password s)] else []) @
     [Use_certificate_chain_file (certificate s), Use_private_key_file (certificate_key s),
      Use_tmp_dh_file (dhparam s)] @
     (if client_certificate s \<noteq> []
      then [Verify_peer_and_fail_without_certificate, Load_verify_file (client_certificate s)]
      else []) @
     (if session_cache s then [Session_cache_server] else []) @
     (if session_cache_size s > 0 then [Session_cache_size (session_cache_size s)] else []) @
     (if session_timeout_secs s > 0 then [Session_timeout (session_timeout_secs s)] else [])"

text \<open>
  The calls on asio throw when they fail; the results of the calls on OpenSSL itself are dropped.
  \<open>tls\<close> tells which calls fail, \<open>order\<close> how a set is traversed.
\<close>

fun checked_call :: "ssl_call \<Rightarrow> bool" where
  "checked_call (Set_cipher_list cs) = False"
| "checked_call Server_cipher_preference = False"
| "checked_call Session_cache_server = False"
| "checked_call (Session_cache_size n) = False"
| "checked_call (Session_timeout n) = False"
| "checked_call _ = True"

definition construct_https :: "(ssl_call \<Rightarrow> exn option) \<Rightarrow> (ssl_proto set \<Rightarrow> ssl_proto list) \<Rightarrow> ssl_settings \<Rightarrow>
    exn + unit" where
  "construct_https tls order s =
     run_calls (\<lambda>c. if checked_call c then tls c else None) (setup_calls (order (protocols s)) s)"

lemma construct_https_Inr:
  "construct_https tls order s = Inr u \<longleftrightarrow>
     (\<forall>c \<in> set (setup_calls (order (protocols s)) s). checked_call c \<longrightarrow> tls c = None)"
  by (simp add: construct_https_def run_calls_Inr)

text \<open>A list of ciphers that OpenSSL refuses does not keep a server from starting.\<close>

lemma bad_ciphers_ignored:
  "(\<And>c. c \<noteq> Set_cipher_list (ciphers s) \<Longrightarrow> tls c = None) \<Longrightarrow> construct_https tls order s = Inr ()"
  unfolding construct_https_Inr by (metis checked_call.simps(1))


subsection \<open>What a configuration sets\<close>

definition named_protocols :: "string typed list \<Rightarrow> ssl_proto set" where
  "named_protocols ps = {pr. \<exists>p. Typed p \<in> set ps \<and> protocol_from_string p = Inr pr}"

lemma named_protocols_simps [simp]:
  "named_protocols [] = {}"
  "protocol_from_string p = Inr pr \<Longrightarrow> named_protocols (Typed p # ps) = insert pr (named_protocols ps)"
  by (auto simp: named_protocols_def)

definition protocol_known :: "string typed \<Rightarrow> bool" where
  "protocol_known t \<longleftrightarrow> (\<exists>p pr. t = Typed p \<and> protocol_from_string p = Inr pr)"

lemma insert_protocols_Inr:
  "insert_protocols ps s = Inr t \<longleftrightarrow>
     (\<forall>p \<in> set ps. protocol_known p) \<and> t = s\<lparr>protocols := protocols s \<union> named_protocols ps\<rparr>"
proof (induction ps arbitrary: s)
  case (Cons p ps)
  show ?case
  proof (cases p)
    case (Typed n)
    then show ?thesis
      by (cases "protocol_from_string n") (auto simp: Cons.IH protocol_known_def)
  qed (simp add: protocol_known_def)
qed auto

text \<open>What a section sets when it can be read\<close>

lemmas read_section_defs = read_files_def read_protocols_def read_ciphers_def read_client_certificate_def
  read_session_def

lemma read_protocols_Inr:
  "read_protocols sec s = Inr t \<longleftrightarrow> (\<forall>ps. cfg_protocols sec = Some ps \<longrightarrow> (\<forall>p \<in> set ps. protocol_known p)) \<and>
     t = s\<lparr>protocols := protocols s \<union> named_protocols (case_option [] id (cfg_protocols sec))\<rparr>"
  by (auto simp: read_protocols_def insert_protocols_Inr split: option.split)

lemma read_frame:
  "read_files sec s = Inr t \<Longrightarrow> protocols t = protocols s \<and> client_certificate t = client_certificate s"
  "read_ciphers sec s = Inr t \<Longrightarrow> protocols t = protocols s \<and> client_certificate t = client_certificate s"
  "read_session sec s = Inr t \<Longrightarrow> protocols t = protocols s \<and> client_certificate t = client_certificate s"
  by (auto simp: read_files_def read_ciphers_def read_session_def andthen_Inr_iff)

lemma read_client_certificate_Inr:
  assumes "read_client_certificate sec s = Inr t"
  shows "protocols t = protocols s \<and> (\<exists>v. json_value (cfg_verify_client sec) False = Inr v \<and>
    (if v then json_value (cfg_client_certificate sec) [] = Inr (client_certificate t)
     else client_certificate t = client_certificate s))"
proof -
  obtain v where v: "json_value (cfg_verify_client sec) False = Inr v"
    using assms by (cases "json_value (cfg_verify_client sec) False") (simp_all add: read_client_certificate_def)
  show ?thesis
  proof (cases v)
    case True
    then obtain f where "json_value (cfg_client_certificate sec) [] = Inr f" "t = s\<lparr>client_certificate := f\<rparr>"
      using assms v by (cases "json_value (cfg_client_certificate sec) []") (simp_all add: read_client_certificate_def)
    with True v show ?thesis by (intro conjI exI [of _ True]) simp_all
  next
    case False
    with assms v show ?thesis
      by (intro conjI exI [of _ False]) (simp_all add: read_client_certificate_def)
  qed
qed

lemma read_ssl_section_Inr:
  assumes "read_ssl_section sec = Inr s"
  shows "\<exists>v. json_value (cfg_verify_client sec) False = Inr v \<and>
      (if v then json_value (cfg_client_certificate sec) [] = Inr (client_certificate s)
       else client_certificate s = [])"
    and "protocols s = {tlsv1, tlsv11, tlsv12, tlsv13} \<union> named_protocols (case_option [] id (cfg_protocols sec))"
    and "\<And>ps p. cfg_protocols sec = Some ps \<Longrightarrow> p \<in> set ps \<Longrightarrow> protocol_known p"
proof -
  from assms obtain s1 s2 s3 s4 where "read_files sec default_settings = Inr s1" "read_protocols sec s1 = Inr s2"
    "read_ciphers sec s2 = Inr s3" "read_client_certificate sec s3 = Inr s4" "read_session sec s4 = Inr s"
    by (auto simp: read_ssl_section_def andthen_Inr_iff)
  note f1 = read_frame(1) [OF this(1)] and f2 = this(2) [unfolded read_protocols_Inr]
    and f3 = read_frame(2) [OF this(3)] and f4 = read_client_certificate_Inr [OF this(4)]
    and f5 = read_frame(3) [OF this(5)]
  have c: "client_certificate s3 = []" "client_certificate s4 = client_certificate s"
    using f1 f2 f3 f5 by (simp_all add: default_settings_def)
  from f4 obtain v where "json_value (cfg_verify_client sec) False = Inr v"
    "if v then json_value (cfg_client_certificate sec) [] = Inr (client_certificate s) else client_certificate s = []"
    unfolding c by blast
  then show "\<exists>v. json_value (cfg_verify_client sec) False = Inr v \<and>
      (if v then json_value (cfg_client_certificate sec) [] = Inr (client_certificate s)
       else client_certificate s = [])" by blast
  show "protocols s = {tlsv1, tlsv11, tlsv12, tlsv13} \<union> named_protocols (case_option [] id (cfg_protocols sec))"
    using f1 f2 f3 f4 f5 by (simp add: default_settings_def)
  show "\<And>ps p. cfg_protocols sec = Some ps \<Longrightarrow> p \<in> set ps \<Longrightarrow> protocol_known p"
    using f2 by blast
qed

text \<open>A name that is no protocol, or a value that is no string, makes the section unreadable.\<close>

lemma unknown_protocol_throws:
  assumes "cfg_protocols sec = Some ps" "t \<in> set ps" "\<not> protocol_known t"
  shows "\<exists>e. read_ssl_section sec = Inl e"
  using read_ssl_section_Inr(3) [OF _ assms(1,2)] assms(3) by (cases "read_ssl_section sec") auto

lemma verify_iff: "Verify_peer_and_fail_without_certificate \<in> set (setup_calls protos s) \<longleftrightarrow>
    client_certificate s \<noteq> []"
  by (auto simp: setup_calls_def)


subsection \<open>Properties\<close>

text \<open>
  C37 (client_verification): client certificates are verified exactly when the section asks for it and
  also names a file of certificates: \<open>verify_client\<close> alone has no effect.
\<close>

theorem client_verification:
  assumes "read_ssl_section sec = Inr s"
  shows "Verify_peer_and_fail_without_certificate \<in> set (setup_calls protos s) \<longleftrightarrow>
    cfg_verify_client sec = Some (Typed True) \<and> (\<exists>f. cfg_client_certificate sec = Some (Typed f) \<and> f \<noteq> [])"
  using read_ssl_section_Inr(1) [OF assms]
  by (auto simp: verify_iff json_value_Inr split: if_splits)

definition empty_section :: ssl_section where
  "empty_section = \<lparr>cfg_certificate = None, cfg_certificate_key = None, cfg_dhparam = None,
     cfg_password = None, cfg_protocols = None, cfg_ciphers = None, cfg_prefer_server_ciphers = None,
     cfg_verify_client = None, cfg_client_certificate = None, cfg_session_timeout_secs = None,
     cfg_session_cache = None, cfg_session_cache_size = None\<rparr>"

theorem client_verification_witness:
  "\<exists>s. read_ssl_section (empty_section\<lparr>cfg_verify_client := Some (Typed True)\<rparr>) = Inr s \<and>
     Verify_peer_and_fail_without_certificate \<notin> set (setup_calls [tlsv13] s)"
  (is "\<exists>s. read_ssl_section ?sec = Inr s \<and> _")
proof -
  obtain s where s: "read_ssl_section ?sec = Inr s"
    by (simp add: read_ssl_section_def read_section_defs empty_section_def)
  with client_verification [OF s] show ?thesis by (simp add: empty_section_def)
qed

text \<open>
  The list of protocols of a section adds to the four that are set by
  default and removes none, so it cannot turn an old protocol off; a name that is no protocol is an
  exception.
\<close>

theorem protocols_only_grow:
  assumes "cfg_protocols sec = Some ps" "read_ssl_section sec = Inr s"
  shows "(\<forall>t \<in> set ps. \<exists>p pr. t = Typed p \<and> protocol_from_string p = Inr pr) \<and>
    protocols s = {tlsv1, tlsv11, tlsv12, tlsv13} \<union> {pr. \<exists>p. Typed p \<in> set ps \<and> protocol_from_string p = Inr pr}"
  using read_ssl_section_Inr(2,3) [OF assms(2)] assms(1)
  by (simp add: named_protocols_def protocol_known_def)

theorem protocols_only_grow_witness:
  "\<exists>s. read_ssl_section (empty_section\<lparr>cfg_protocols := Some [Typed ''TLSv1.3'']\<rparr>) = Inr s \<and> tlsv1 \<in> protocols s"
  (is "\<exists>s. read_ssl_section ?sec = Inr s \<and> _")
proof -
  have p: "protocol_from_string ''TLSv1.3'' = Inr tlsv13" by code_simp
  obtain s where s: "read_ssl_section ?sec = Inr s"
    by (simp add: read_ssl_section_def read_section_defs empty_section_def p)
  with protocols_only_grow [of ?sec "[Typed ''TLSv1.3'']" s] show ?thesis by auto
qed

end
