(* ===== verification/Request_Parser.thy ===== *)
theory Request_Parser
  imports Http_Request
begin

section \<open>The request parser (\<open>src/lib/request_parser.cpp\<close>, \<open>src/lib/request_parser.hpp\<close>)\<close>

text \<open>
  An incremental parser: \<^verbatim>\<open>consume\<close> takes one character in one of twenty states, \<^verbatim>\<open>parse\<close> runs it over
  a range until a verdict is reached. The only member of \<^verbatim>\<open>request_parser\<close> is its \<open>parser_state\<close>, so
  the object is that value; the request it fills is passed and returned.

  Each case of the \<^verbatim>\<open>switch\<close> is a definition of its own. The outcome \<open>None\<close> is undefined behaviour:
  \<^verbatim>\<open>headers.back()\<close> of an empty vector, which never happens (\<open>consume_None_iff\<close>), and the overflow of
  the version numbers, which a client can provoke.
\<close>

datatype result_type = good | bad | indeterminate

datatype parser_state =
    method_start
  | method_s
  | uri_s
  | http_version_h
  | http_version_t_1
  | http_version_t_2
  | http_version_p
  | http_version_slash
  | http_version_major_start
  | http_version_major_s
  | http_version_minor_start
  | http_version_minor_s
  | expecting_newline_1
  | header_line_start
  | header_lws
  | header_name
  | space_before_header_value
  | header_value
  | expecting_newline_2
  | expecting_newline_3

type_synonym outcome = "(result_type \<times> parser_state \<times> http_request) option"

definition is_char :: "int \<Rightarrow> bool" where
  "is_char c \<longleftrightarrow> c \<ge> 0 \<and> c \<le> 127"

definition is_ctl :: "int \<Rightarrow> bool" where
  "is_ctl c \<longleftrightarrow> c \<ge> 0 \<and> c \<le> 31 \<or> c = 127"

definition is_tspecial :: "int \<Rightarrow> bool" where
  "is_tspecial c \<longleftrightarrow> c \<in> set (map char_int
     [CHR ''('', CHR '')'', CHR ''<'', CHR ''>'', CHR ''@'',
      CHR '','', CHR '';'', CHR '':'', CHR 0x5C, CHR 0x22,
      CHR ''/'', CHR ''['', CHR '']'', CHR ''?'', CHR ''='',
      CHR ''{'', CHR ''}'', SP, HT])"

definition is_digit :: "int \<Rightarrow> bool" where
  "is_digit c \<longleftrightarrow> c \<ge> char_int (CHR ''0'') \<and> c \<le> char_int (CHR ''9'')"

abbreviation proceed :: "parser_state \<Rightarrow> http_request \<Rightarrow> outcome" where
  "proceed s r \<equiv> Some (indeterminate, s, r)"

text \<open>A character that may not appear in a method or in a header name\<close>

definition no_token :: "char \<Rightarrow> bool" where
  "no_token c \<longleftrightarrow> \<not> is_char (char_int c) \<or> is_ctl (char_int c) \<or> is_tspecial (char_int c)"

text \<open>\<^verbatim>\<open>version * 10 + input - '0'\<close> in 32-bit arithmetic\<close>

definition push_digit :: "int \<Rightarrow> char \<Rightarrow> int option" where
  "push_digit v c = do {
     a \<leftarrow> int_mult v 10;
     b \<leftarrow> int_add a (char_int c);
     int_sub b (char_int (CHR ''0''))
   }"

text \<open>\<^verbatim>\<open>headers.back()\<close> updated\<close>

definition update_back :: "(header \<Rightarrow> header) \<Rightarrow> header list \<Rightarrow> header list option" where
  "update_back f hs = (if hs = [] then None else Some (butlast hs @ [f (last hs)]))"

definition back_name_push :: "char \<Rightarrow> http_request \<Rightarrow> http_request option" where
  "back_name_push c r = map_option (\<lambda>hs. r\<lparr>req_headers := hs\<rparr>)
     (update_back (\<lambda>h. h\<lparr>h_name := h_name h @ [c]\<rparr>) (req_headers r))"

definition back_value_push :: "char \<Rightarrow> http_request \<Rightarrow> http_request option" where
  "back_value_push c r = map_option (\<lambda>hs. r\<lparr>req_headers := hs\<rparr>)
     (update_back (\<lambda>h. h\<lparr>h_value := h_value h @ [c]\<rparr>) (req_headers r))"


subsection \<open>The cases of \<open>consume\<close>\<close>

definition consume_method_start :: "http_request \<Rightarrow> char \<Rightarrow> outcome" where
  "consume_method_start r c =
     (if no_token c then Some (bad, method_start, r)
      else proceed method_s (r\<lparr>req_method := req_method r @ [c]\<rparr>))"

definition consume_method :: "http_request \<Rightarrow> char \<Rightarrow> outcome" where
  "consume_method r c =
     (if c = SP then proceed uri_s r
      else if no_token c then Some (bad, method_s, r)
      else proceed method_s (r\<lparr>req_method := req_method r @ [c]\<rparr>))"

definition consume_uri :: "http_request \<Rightarrow> char \<Rightarrow> outcome" where
  "consume_uri r c =
     (if c = SP then proceed http_version_h r
      else if is_ctl (char_int c) then Some (bad, uri_s, r)
      else proceed uri_s (r\<lparr>req_uri := req_uri r @ [c]\<rparr>))"

text \<open>The states that accept one character only: from \<open>s\<close> on \<open>x\<close> to \<open>s'\<close>\<close>

definition consume_exactly :: "parser_state \<Rightarrow> char \<Rightarrow> parser_state \<Rightarrow> http_request \<Rightarrow> char \<Rightarrow> outcome" where
  "consume_exactly s x s' r c = (if c = x then proceed s' r else Some (bad, s, r))"

definition consume_version_slash :: "http_request \<Rightarrow> char \<Rightarrow> outcome" where
  "consume_version_slash r c =
     (if c = CHR ''/''
      then proceed http_version_major_start (r\<lparr>http_version_major := 0, http_version_minor := 0\<rparr>)
      else Some (bad, http_version_slash, r))"

definition consume_version_major_start :: "http_request \<Rightarrow> char \<Rightarrow> outcome" where
  "consume_version_major_start r c =
     (if is_digit (char_int c) then do {
        v \<leftarrow> push_digit (http_version_major r) c;
        proceed http_version_major_s (r\<lparr>http_version_major := v\<rparr>)
      }
      else Some (bad, http_version_major_start, r))"

definition consume_version_major :: "http_request \<Rightarrow> char \<Rightarrow> outcome" where
  "consume_version_major r c =
     (if c = CHR ''.'' then proceed http_version_minor_start r
      else if is_digit (char_int c) then do {
        v \<leftarrow> push_digit (http_version_major r) c;
        proceed http_version_major_s (r\<lparr>http_version_major := v\<rparr>)
      }
      else Some (bad, http_version_major_s, r))"

definition consume_version_minor_start :: "http_request \<Rightarrow> char \<Rightarrow> outcome" where
  "consume_version_minor_start r c =
     (if is_digit (char_int c) then do {
        v \<leftarrow> push_digit (http_version_minor r) c;
        proceed http_version_minor_s (r\<lparr>http_version_minor := v\<rparr>)
      }
      else Some (bad, http_version_minor_start, r))"

definition consume_version_minor :: "http_request \<Rightarrow> char \<Rightarrow> outcome" where
  "consume_version_minor r c =
     (if c = CR then proceed expecting_newline_1 r
      else if is_digit (char_int c) then do {
        v \<leftarrow> push_digit (http_version_minor r) c;
        proceed http_version_minor_s (r\<lparr>http_version_minor := v\<rparr>)
      }
      else Some (bad, http_version_minor_s, r))"

definition consume_header_line_start :: "http_request \<Rightarrow> char \<Rightarrow> outcome" where
  "consume_header_line_start r c =
     (if c = CR then proceed expecting_newline_3 r
      else if req_headers r \<noteq> [] \<and> (c = SP \<or> c = HT) then proceed header_lws r
      else if no_token c then Some (bad, header_line_start, r)
      else do {
        r' \<leftarrow> back_name_push c
          (r\<lparr>req_headers := req_headers r @ [\<lparr>h_name = [], h_value = []\<rparr>]\<rparr>);
        proceed header_name r'
      })"

definition consume_header_lws :: "http_request \<Rightarrow> char \<Rightarrow> outcome" where
  "consume_header_lws r c =
     (if c = CR then proceed expecting_newline_2 r
      else if c = SP \<or> c = HT then proceed header_lws r
      else if is_ctl (char_int c) then Some (bad, header_lws, r)
      else do { r' \<leftarrow> back_value_push c r; proceed header_value r' })"

definition consume_header_name :: "http_request \<Rightarrow> char \<Rightarrow> outcome" where
  "consume_header_name r c =
     (if c = CHR '':'' then proceed space_before_header_value r
      else if no_token c then Some (bad, header_name, r)
      else do { r' \<leftarrow> back_name_push c r; proceed header_name r' })"

definition consume_header_value :: "http_request \<Rightarrow> char \<Rightarrow> outcome" where
  "consume_header_value r c =
     (if c = CR then proceed expecting_newline_2 r
      else if is_ctl (char_int c) then Some (bad, header_value, r)
      else do { r' \<leftarrow> back_value_push c r; proceed header_value r' })"

definition consume_newline_1 :: "http_request \<Rightarrow> char \<Rightarrow> outcome" where
  [simp]: "consume_newline_1 = consume_exactly expecting_newline_1 LF header_line_start"

definition consume_space_before_header_value :: "http_request \<Rightarrow> char \<Rightarrow> outcome" where
  [simp]: "consume_space_before_header_value = consume_exactly space_before_header_value SP header_value"

definition consume_newline_2 :: "http_request \<Rightarrow> char \<Rightarrow> outcome" where
  [simp]: "consume_newline_2 = consume_exactly expecting_newline_2 LF header_line_start"

definition consume_newline_3 :: "http_request \<Rightarrow> char \<Rightarrow> outcome" where
  "consume_newline_3 r c = Some (if c = LF then good else bad, expecting_newline_3, r)"

fun consume :: "parser_state \<Rightarrow> http_request \<Rightarrow> char \<Rightarrow> outcome" where
  "consume method_start r c = consume_method_start r c"
| "consume method_s r c = consume_method r c"
| "consume uri_s r c = consume_uri r c"
| "consume http_version_h r c = consume_exactly http_version_h (CHR ''H'') http_version_t_1 r c"
| "consume http_version_t_1 r c = consume_exactly http_version_t_1 (CHR ''T'') http_version_t_2 r c"
| "consume http_version_t_2 r c = consume_exactly http_version_t_2 (CHR ''T'') http_version_p r c"
| "consume http_version_p r c = consume_exactly http_version_p (CHR ''P'') http_version_slash r c"
| "consume http_version_slash r c = consume_version_slash r c"
| "consume http_version_major_start r c = consume_version_major_start r c"
| "consume http_version_major_s r c = consume_version_major r c"
| "consume http_version_minor_start r c = consume_version_minor_start r c"
| "consume http_version_minor_s r c = consume_version_minor r c"
| "consume expecting_newline_1 r c = consume_newline_1 r c"
| "consume header_line_start r c = consume_header_line_start r c"
| "consume header_lws r c = consume_header_lws r c"
| "consume header_name r c = consume_header_name r c"
| "consume space_before_header_value r c = consume_space_before_header_value r c"
| "consume header_value r c = consume_header_value r c"
| "consume expecting_newline_2 r c = consume_newline_2 r c"
| "consume expecting_newline_3 r c = consume_newline_3 r c"

text \<open>\<^verbatim>\<open>parse\<close>: the verdict, what is left of the range, and the parser and request afterwards\<close>

fun parse :: "parser_state \<Rightarrow> http_request \<Rightarrow> string \<Rightarrow>
    (result_type \<times> string \<times> parser_state \<times> http_request) option" where
  "parse s r [] = Some (indeterminate, [], s, r)"
| "parse s r (c # cs) = do {
     (result, s', r') \<leftarrow> consume s r c;
     if result = good \<or> result = bad then Some (result, cs, s', r')
     else parse s' r' cs
   }"

text \<open>The constructor and \<^verbatim>\<open>reset\<close>\<close>

definition new_parser :: parser_state where
  [simp]: "new_parser = method_start"

definition reset :: "parser_state \<Rightarrow> parser_state" where
  "reset s = method_start"



subsection \<open>Character classes at the delimiters\<close>

definition token_char :: "char \<Rightarrow> bool" where
  "token_char c \<longleftrightarrow> \<not> no_token c"

definition field_char :: "char \<Rightarrow> bool" where
  "field_char c \<longleftrightarrow> \<not> is_ctl (char_int c)"

definition digit_char_p :: "char \<Rightarrow> bool" where
  "digit_char_p c \<longleftrightarrow> is_digit (char_int c)"

lemma token_char_delims [char_class]:
  "\<not> token_char CR" "\<not> token_char LF" "\<not> token_char SP" "\<not> token_char HT" "\<not> token_char (CHR '':'')"
  by code_simp+

lemma field_char_delims [char_class]:
  "\<not> field_char CR" "\<not> field_char LF" "\<not> field_char HT" "\<not> field_char NUL" "field_char SP"
  by code_simp+

lemma digit_char_delims [char_class]:
  "\<not> digit_char_p CR" "\<not> digit_char_p (CHR ''.'')" "\<not> digit_char_p SP"
  by code_simp+

lemma no_token_iff [char_class]: "no_token c \<longleftrightarrow> \<not> token_char c"
  by (simp add: token_char_def)

lemma is_ctl_iff [char_class]: "is_ctl (char_int c) \<longleftrightarrow> \<not> field_char c"
  by (simp add: field_char_def)

lemma is_digit_iff [char_class]: "is_digit (char_int c) \<longleftrightarrow> digit_char_p c"
  by (simp add: digit_char_p_def)

lemmas consume_defs =
  consume_method_start_def consume_method_def consume_uri_def consume_exactly_def
  consume_version_slash_def consume_version_major_start_def consume_version_major_def
  consume_version_minor_start_def consume_version_minor_def consume_header_line_start_def
  consume_header_lws_def consume_header_name_def consume_header_value_def consume_newline_3_def


subsection \<open>Undefined behaviour\<close>

lemma digit_range: "digit_char_p c \<Longrightarrow> 48 \<le> char_int c \<and> char_int c \<le> 57"
proof -
  have "char_int (CHR ''0'') = 48" "char_int (CHR ''9'') = 57" by code_simp+
  then show "digit_char_p c \<Longrightarrow> 48 \<le> char_int c \<and> char_int c \<le> 57"
    by (simp add: digit_char_p_def is_digit_def)
qed

lemma push_digit_eq:
  assumes "0 \<le> v" "digit_char_p c"
  shows "push_digit v c =
    (if v * 10 + char_int c \<le> INT_MAX then Some (v * 10 + char_int c - 48) else None)"
proof -
  have "char_int (CHR ''0'') = 48" by code_simp
  with assms digit_range [OF assms(2)] show ?thesis
    by (auto simp: push_digit_def int_op_defs Option.bind_eq_None_conv)
qed

text \<open>A header has been started in every state that reads one; the versions are not negative.\<close>

definition parser_inv :: "parser_state \<Rightarrow> http_request \<Rightarrow> bool" where
  "parser_inv s r \<longleftrightarrow>
     (s \<in> {header_lws, header_name, space_before_header_value, header_value, expecting_newline_2}
        \<longrightarrow> req_headers r \<noteq> []) \<and>
     (s \<in> {http_version_major_start, http_version_major_s, http_version_minor_start,
           http_version_minor_s} \<longrightarrow> 0 \<le> http_version_major r \<and> 0 \<le> http_version_minor r)"

lemma parser_inv_start [simp]: "parser_inv method_start r"
  by (simp add: parser_inv_def)

lemma consume_inv:
  assumes "parser_inv s r" "consume s r c = Some (v, s', r')"
  shows "parser_inv s' r'"
  using assms
  by (cases s)
    (auto simp: parser_inv_def consume_defs char_class back_name_push_def back_value_push_def
      update_back_def push_digit_eq bind_eq_Some_conv dest!: digit_range split: if_splits)

text \<open>The version number that is about to grow past \<^verbatim>\<open>INT_MAX\<close>\<close>

definition version_overflow :: "parser_state \<Rightarrow> http_request \<Rightarrow> char \<Rightarrow> bool" where
  "version_overflow s r c \<longleftrightarrow> is_digit (char_int c) \<and>
     (s \<in> {http_version_major_start, http_version_major_s} \<and>
        http_version_major r * 10 + char_int c > INT_MAX \<or>
      s \<in> {http_version_minor_start, http_version_minor_s} \<and>
        http_version_minor r * 10 + char_int c > INT_MAX)"

lemma consume_None_iff:
  assumes "parser_inv s r"
  shows "consume s r c = None \<longleftrightarrow> version_overflow s r c"
  using assms
  by (cases s)
    (auto simp: parser_inv_def version_overflow_def consume_defs char_class back_name_push_def
      back_value_push_def update_back_def push_digit_eq Option.bind_eq_None_conv)


subsection \<open>Running over a range\<close>

lemma parse_append:
  "parse s r (xs @ ys) =
     (case parse s r xs of
        None \<Rightarrow> None
      | Some (v, rest, s', r') \<Rightarrow>
          if v = indeterminate then parse s' r' ys else Some (v, rest @ ys, s', r'))"
proof (induction xs arbitrary: s r)
  case Nil
  then show ?case by simp
next
  case (Cons c xs)
  show ?case
  proof (cases "consume s r c")
    case None
    then show ?thesis by simp
  next
    case (Some p)
    then obtain v s' r' where "consume s r c = Some (v, s', r')" by (cases p) auto
    then show ?thesis using Cons.IH [of s' r'] by (cases v) simp_all
  qed
qed

lemma parse_suffix: "parse s r xs = Some (v, rest, s', r') \<Longrightarrow> suffix rest xs"
  by (induction xs arbitrary: s r)
    (auto simp: bind_eq_Some_conv suffix_Cons split: if_splits)

lemma parse_indeterminate: "parse s r xs = Some (indeterminate, rest, s', r') \<Longrightarrow> rest = []"
  by (induction xs arbitrary: s r) (auto simp: bind_eq_Some_conv split: if_splits)

lemma parse_inv:
  "parse s r xs = Some (v, rest, s', r') \<Longrightarrow> parser_inv s r \<Longrightarrow> parser_inv s' r'"
  by (induction xs arbitrary: s r)
    (auto simp: bind_eq_Some_conv split: if_splits dest: consume_inv)


subsection \<open>The contract of an incremental reader\<close>

text \<open>
  What a connection relies on when it feeds the bytes of a socket as they come: one call per
  buffer, until a verdict other than \<open>cont\<close>. The law is that cutting the input anywhere makes no
  difference.
\<close>

fun feed_all :: "('s \<Rightarrow> string \<Rightarrow> ('v \<times> string \<times> 's) option) \<Rightarrow> 'v \<Rightarrow> 's \<Rightarrow> string list \<Rightarrow>
    ('v \<times> string \<times> 's) option" where
  "feed_all feed cont s [] = Some (cont, [], s)"
| "feed_all feed cont s (b # bs) =
     (case feed s b of
        None \<Rightarrow> None
      | Some (v, rest, s') \<Rightarrow>
          if v = cont then feed_all feed cont s' bs else Some (v, rest @ concat bs, s'))"

locale incremental_reader =
  fixes feed :: "'s \<Rightarrow> string \<Rightarrow> ('v \<times> string \<times> 's) option"
    and cont :: 'v
  assumes feed_empty: "feed s [] = Some (cont, [], s)"
    and feed_append: "feed s (xs @ ys) =
      (case feed s xs of
         None \<Rightarrow> None
       | Some (v, rest, s') \<Rightarrow>
           if v = cont then feed s' ys else Some (v, rest @ ys, s'))"
begin

lemma feed_chunks: "feed_all feed cont s bs = feed s (concat bs)"
proof (induction bs arbitrary: s)
  case Nil
  then show ?case by (simp add: feed_empty)
next
  case (Cons b bs)
  then show ?case by (simp add: feed_append split: option.split prod.split)
qed

lemma feed_chunks_cong: "concat bs = concat cs \<Longrightarrow> feed_all feed cont s bs = feed_all feed cont s cs"
  by (simp add: feed_chunks)

end

definition feed_parser :: "parser_state \<times> http_request \<Rightarrow> string \<Rightarrow>
    (result_type \<times> string \<times> parser_state \<times> http_request) option" where
  "feed_parser p xs = parse (fst p) (snd p) xs"

interpretation parser_reader: incremental_reader feed_parser indeterminate
proof (unfold_locales, goal_cases)
  case (1 p)
  show ?case by (simp add: feed_parser_def)
next
  case (2 p xs ys)
  show ?case by (auto simp: feed_parser_def parse_append split: option.split)
qed


subsection \<open>Properties\<close>

text \<open>
  C26 (parse_chunks): however the bytes of a request are cut into reads, the parser gives the verdict,
  the rest and the request that it gives on the whole of them.
\<close>

theorem parse_chunks:
  "feed_all feed_parser indeterminate (s, r) chunks = parse s r (concat chunks)"
  using parser_reader.feed_chunks [of "(s, r)" chunks] by (simp add: feed_parser_def)

end
