(* ===== verification/Request_Grammar.thy ===== *)
theory Request_Grammar
  imports Request_Parser
begin

section \<open>The language of the request parser\<close>

text \<open>
  A specification of what \<open>parse\<close> accepts, independent of its states: the text of a request
  is a method, a URI, two version numbers and a list of header lines, each line a new field or the
  continuation of the field before it. \<open>parse_good_iff\<close> shows that the parser accepts exactly these
  texts and builds the request they denote; \<open>parse_None_iff\<close> that undefined behaviour is met exactly
  on an overlong version number.
\<close>

datatype header_line = Field string string | Fold string string

fun line_text :: "header_line \<Rightarrow> string" where
  "line_text (Field n v) = n @ CHR '':'' # SP # v @ CRLF"
| "line_text (Fold ws v) = ws @ v @ CRLF"

text \<open>A continuation starts with blanks, all of which are skipped.\<close>

fun line_ok :: "header_line \<Rightarrow> bool" where
  "line_ok (Field n v) \<longleftrightarrow> n \<noteq> [] \<and> (\<forall>c \<in> set n. token_char c) \<and> (\<forall>c \<in> set v. field_char c)"
| "line_ok (Fold ws v) \<longleftrightarrow> ws \<noteq> [] \<and> (\<forall>c \<in> set ws. c = SP \<or> c = HT) \<and>
     (\<forall>c \<in> set v. field_char c) \<and> (v \<noteq> [] \<longrightarrow> hd v \<noteq> SP)"

fun is_fold :: "header_line \<Rightarrow> bool" where
  "is_fold (Field n v) = False"
| "is_fold (Fold ws v) = True"

text \<open>Text appended to the value, or to the name, of the last header\<close>

definition append_value :: "header list \<Rightarrow> string \<Rightarrow> header list" where
  "append_value hs v = butlast hs @ [(last hs)\<lparr>h_value := h_value (last hs) @ v\<rparr>]"

definition append_name :: "header list \<Rightarrow> string \<Rightarrow> header list" where
  "append_name hs n = butlast hs @ [(last hs)\<lparr>h_name := h_name (last hs) @ n\<rparr>]"

text \<open>The headers after a line: a continuation is appended to the last value as it is.\<close>

fun apply_line :: "header list \<Rightarrow> header_line \<Rightarrow> header list" where
  "apply_line hs (Field n v) = hs @ [\<lparr>h_name = n, h_value = v\<rparr>]"
| "apply_line hs (Fold ws v) = append_value hs v"

fun lines_ok :: "bool \<Rightarrow> header_line list \<Rightarrow> bool" where
  "lines_ok some [] = True"
| "lines_ok some (l # ls) = (line_ok l \<and> (is_fold l \<longrightarrow> some) \<and> lines_ok True ls)"

fun version_value :: "int \<Rightarrow> string \<Rightarrow> int option" where
  "version_value v [] = Some v"
| "version_value v (c # cs) = Option.bind (push_digit v c) (\<lambda>v'. version_value v' cs)"

definition version_text :: "string \<Rightarrow> string \<Rightarrow> string" where
  "version_text vmaj vmin = vmaj @ CHR ''.'' # vmin @ CRLF"

definition request_text :: "string \<Rightarrow> string \<Rightarrow> string \<Rightarrow> string \<Rightarrow> header_line list \<Rightarrow> string" where
  "request_text m u vmaj vmin ls =
     m @ SP # u @ '' HTTP/'' @ version_text vmaj vmin @ concat (map line_text ls) @ CRLF"

definition method_ok :: "string \<Rightarrow> bool" where
  "method_ok m \<longleftrightarrow> m \<noteq> [] \<and> (\<forall>c \<in> set m. token_char c)"

definition uri_ok :: "string \<Rightarrow> bool" where
  "uri_ok u \<longleftrightarrow> (\<forall>c \<in> set u. field_char c \<and> c \<noteq> SP)"

definition number_ok :: "string \<Rightarrow> bool" where
  "number_ok ds \<longleftrightarrow> ds \<noteq> [] \<and> (\<forall>c \<in> set ds. digit_char_p c)"

text \<open>An outcome other than a rejection or a request for more input\<close>

definition settled :: "(result_type \<times> string \<times> parser_state \<times> http_request) option \<Rightarrow> bool" where
  "settled res \<longleftrightarrow> (case res of None \<Rightarrow> True | Some (v, _) \<Rightarrow> v = good)"

lemma settled_simps [simp]:
  "settled None"
  "settled (Some (v, x)) \<longleftrightarrow> v = good"
  by (simp_all add: settled_def)

lemmas step_simps = consume_defs char_class


subsection \<open>The request line\<close>

lemma run_method:
  "\<forall>c \<in> set m. token_char c \<Longrightarrow>
     parse method_s r (m @ SP # cs) = parse uri_s (r\<lparr>req_method := req_method r @ m\<rparr>) cs"
proof (induction m arbitrary: r)
  case (Cons c m)
  then have "c \<noteq> SP" using token_char_delims by auto
  with Cons show ?case by (simp add: step_simps)
qed (simp add: step_simps)

lemma inv_method:
  "settled (parse method_s r inp) \<Longrightarrow> \<exists>m cs. (\<forall>c \<in> set m. token_char c) \<and> inp = m @ SP # cs"
proof (induction inp arbitrary: r)
  case (Cons c cs)
  show ?case
  proof (cases "c = SP")
    case True
    then have "(\<forall>c \<in> set []. token_char c) \<and> c # cs = [] @ SP # cs" by simp
    then show ?thesis by blast
  next
    case False
    with Cons.prems have "token_char c" by (auto simp: step_simps split: if_splits)
    with False Cons.prems have "settled (parse method_s (r\<lparr>req_method := req_method r @ [c]\<rparr>) cs)"
      by (simp add: step_simps)
    with Cons.IH obtain m ds where "\<forall>c \<in> set m. token_char c" "cs = m @ SP # ds" by blast
    with \<open>token_char c\<close> have "(\<forall>c \<in> set (c # m). token_char c) \<and> c # cs = (c # m) @ SP # ds"
      by simp
    then show ?thesis by blast
  qed
qed simp

lemma run_uri:
  "uri_ok u \<Longrightarrow>
     parse uri_s r (u @ SP # cs) = parse http_version_h (r\<lparr>req_uri := req_uri r @ u\<rparr>) cs"
proof (induction u arbitrary: r)
  case (Cons c u)
  then show ?case by (simp add: step_simps uri_ok_def)
qed (simp add: step_simps)

lemma inv_uri:
  "settled (parse uri_s r inp) \<Longrightarrow> \<exists>u cs. uri_ok u \<and> inp = u @ SP # cs"
proof (induction inp arbitrary: r)
  case (Cons c cs)
  show ?case
  proof (cases "c = SP")
    case True
    then have "c # cs = [] @ SP # cs" and "uri_ok []" by (simp_all add: uri_ok_def)
    then show ?thesis by blast
  next
    case False
    with Cons.prems have "field_char c" by (auto simp: step_simps split: if_splits)
    with False Cons.prems have "settled (parse uri_s (r\<lparr>req_uri := req_uri r @ [c]\<rparr>) cs)"
      by (simp add: step_simps)
    with Cons.IH obtain u ds where "uri_ok u" "cs = u @ SP # ds" by blast
    with False \<open>field_char c\<close> have "uri_ok (c # u)" "c # cs = (c # u) @ SP # ds"
      by (simp_all add: uri_ok_def)
    then show ?thesis by blast
  qed
qed simp

lemma run_http:
  "parse http_version_h r (''HTTP/'' @ cs) =
     parse http_version_major_start (r\<lparr>http_version_major := 0, http_version_minor := 0\<rparr>) cs"
  by (simp add: step_simps)

lemma inv_exactly:
  assumes "settled (parse s r inp)" and "\<And>r c. consume s r c = consume_exactly s x s' r c"
  shows "\<exists>cs. inp = x # cs \<and> settled (parse s' r cs)"
  using assms by (cases inp) (auto simp: consume_exactly_def split: if_splits)

lemma inv_http: "settled (parse http_version_h r inp) \<Longrightarrow> \<exists>cs. inp = ''HTTP/'' @ cs"
proof -
  assume "settled (parse http_version_h r inp)"
  then obtain c1 where "inp = CHR ''H'' # c1" "settled (parse http_version_t_1 r c1)"
    using inv_exactly [of http_version_h r inp] by auto
  moreover from this obtain c2 where "c1 = CHR ''T'' # c2" "settled (parse http_version_t_2 r c2)"
    using inv_exactly [of http_version_t_1 r c1] by auto
  moreover from this obtain c3 where "c2 = CHR ''T'' # c3" "settled (parse http_version_p r c3)"
    using inv_exactly [of http_version_t_2 r c2] by auto
  moreover from this obtain c4 where c4: "c3 = CHR ''P'' # c4" "settled (parse http_version_slash r c4)"
    using inv_exactly [of http_version_p r c3] by auto
  moreover from c4 obtain c5 where "c4 = CHR ''/'' # c5"
    by (cases c4) (auto simp: step_simps split: if_splits)
  ultimately show ?thesis by auto
qed


subsection \<open>The version numbers\<close>

lemma run_major:
  "\<forall>c \<in> set ds. digit_char_p c \<Longrightarrow>
     parse http_version_major_s r (ds @ cs) =
       Option.bind (version_value (http_version_major r) ds)
         (\<lambda>v. parse http_version_major_s (r\<lparr>http_version_major := v\<rparr>) cs)"
proof (induction ds arbitrary: r)
  case Nil
  have "r\<lparr>http_version_major := http_version_major r\<rparr> = r" by simp
  then show ?case by simp
next
  case (Cons c ds)
  then have "c \<noteq> CHR ''.''" using digit_char_delims by auto
  with Cons show ?case
    by (cases "push_digit (http_version_major r) c") (simp_all add: step_simps)
qed

lemma run_minor:
  "\<forall>c \<in> set ds. digit_char_p c \<Longrightarrow>
     parse http_version_minor_s r (ds @ cs) =
       Option.bind (version_value (http_version_minor r) ds)
         (\<lambda>v. parse http_version_minor_s (r\<lparr>http_version_minor := v\<rparr>) cs)"
proof (induction ds arbitrary: r)
  case Nil
  have "r\<lparr>http_version_minor := http_version_minor r\<rparr> = r" by simp
  then show ?case by simp
next
  case (Cons c ds)
  then have "c \<noteq> CR" using digit_char_delims by auto
  with Cons show ?case
    by (cases "push_digit (http_version_minor r) c") (simp_all add: step_simps)
qed

text \<open>The first digit is read in a state of its own, with the same effect.\<close>

lemma run_major_start:
  "number_ok ds \<Longrightarrow>
     parse http_version_major_start r (ds @ cs) =
       Option.bind (version_value (http_version_major r) ds)
         (\<lambda>v. parse http_version_major_s (r\<lparr>http_version_major := v\<rparr>) cs)"
proof (cases ds)
  case (Cons c ds')
  moreover assume "number_ok ds"
  ultimately show ?thesis
    by (cases "push_digit (http_version_major r) c") (simp_all add: step_simps run_major number_ok_def)
qed (simp add: number_ok_def)

lemma run_minor_start:
  "number_ok ds \<Longrightarrow>
     parse http_version_minor_start r (ds @ cs) =
       Option.bind (version_value (http_version_minor r) ds)
         (\<lambda>v. parse http_version_minor_s (r\<lparr>http_version_minor := v\<rparr>) cs)"
proof (cases ds)
  case (Cons c ds')
  moreover assume "number_ok ds"
  ultimately show ?thesis
    by (cases "push_digit (http_version_minor r) c") (simp_all add: step_simps run_minor number_ok_def)
qed (simp add: number_ok_def)

lemma span_digits: "\<exists>ds cs. inp = ds @ cs \<and> (\<forall>c \<in> set ds. digit_char_p c) \<and> (cs = [] \<or> \<not> digit_char_p (hd cs))"
proof -
  have "inp = takeWhile digit_char_p inp @ dropWhile digit_char_p inp" by simp
  moreover have "\<forall>c \<in> set (takeWhile digit_char_p inp). digit_char_p c"
    by (auto dest: set_takeWhileD)
  moreover have "dropWhile digit_char_p inp = [] \<or> \<not> digit_char_p (hd (dropWhile digit_char_p inp))"
    using hd_dropWhile [where P = digit_char_p and xs = inp] by blast
  ultimately show ?thesis by blast
qed

lemma inv_major_start:
  assumes "settled (parse http_version_major_start r inp)"
  obtains (overflow) ds cs where "inp = ds @ cs" "number_ok ds"
      "version_value (http_version_major r) ds = None"
  | (number) ds v cs where "inp = ds @ CHR ''.'' # cs" "number_ok ds"
      "version_value (http_version_major r) ds = Some v"
proof -
  obtain ds cs where i: "inp = ds @ cs" "\<forall>c \<in> set ds. digit_char_p c"
    and cs: "cs = [] \<or> \<not> digit_char_p (hd cs)"
    using span_digits by metis
  have ds: "number_ok ds"
    using assms i cs by (cases ds; cases cs) (auto simp: number_ok_def step_simps)
  show thesis
  proof (cases "version_value (http_version_major r) ds")
    case None
    with i ds show thesis by (intro overflow)
  next
    case (Some v)
    with assms i ds have "settled (parse http_version_major_s (r\<lparr>http_version_major := v\<rparr>) cs)"
      by (simp add: run_major_start)
    with cs obtain ds' where "cs = CHR ''.'' # ds'"
      by (cases cs) (auto simp: step_simps split: if_splits)
    with i ds Some show thesis by (intro number) auto
  qed
qed

lemma inv_minor_start:
  assumes "settled (parse http_version_minor_start r inp)"
  obtains (overflow) ds cs where "inp = ds @ cs" "number_ok ds"
      "version_value (http_version_minor r) ds = None"
  | (number) ds v cs where "inp = ds @ CRLF @ cs" "number_ok ds"
      "version_value (http_version_minor r) ds = Some v"
proof -
  obtain ds cs where i: "inp = ds @ cs" "\<forall>c \<in> set ds. digit_char_p c"
    and cs: "cs = [] \<or> \<not> digit_char_p (hd cs)"
    using span_digits by metis
  have ds: "number_ok ds"
    using assms i cs by (cases ds; cases cs) (auto simp: number_ok_def step_simps)
  show thesis
  proof (cases "version_value (http_version_minor r) ds")
    case None
    with i ds show thesis by (intro overflow)
  next
    case (Some v)
    with assms i ds have s: "settled (parse http_version_minor_s (r\<lparr>http_version_minor := v\<rparr>) cs)"
      by (simp add: run_minor_start)
    with cs obtain cs1 where c1: "cs = CR # cs1"
      by (cases cs) (auto simp: step_simps split: if_splits)
    with s obtain cs2 where "cs1 = LF # cs2"
      by (cases cs1) (auto simp: step_simps split: if_splits)
    with i ds Some c1 show thesis by (intro number) auto
  qed
qed


subsection \<open>Header lines\<close>

lemma append_value_simps [simp]:
  "append_value hs v \<noteq> []"
  "hs \<noteq> [] \<Longrightarrow> append_value hs [] = hs"
  "append_value (append_value hs v) w = append_value hs (v @ w)"
  "append_value (hs @ [h]) v = hs @ [h\<lparr>h_value := h_value h @ v\<rparr>]"
  by (simp_all add: append_value_def)

lemma append_name_simps [simp]:
  "append_name hs n \<noteq> []"
  "hs \<noteq> [] \<Longrightarrow> append_name hs [] = hs"
  "append_name (append_name hs n) w = append_name hs (n @ w)"
  "append_name (hs @ [h]) n = hs @ [h\<lparr>h_name := h_name h @ n\<rparr>]"
  by (simp_all add: append_name_def)

lemma back_push_Some [simp]:
  "req_headers r \<noteq> [] \<Longrightarrow>
     back_value_push c r = Some (r\<lparr>req_headers := append_value (req_headers r) [c]\<rparr>)"
  "req_headers r \<noteq> [] \<Longrightarrow>
     back_name_push c r = Some (r\<lparr>req_headers := append_name (req_headers r) [c]\<rparr>)"
  by (simp_all add: back_value_push_def back_name_push_def update_back_def append_value_def append_name_def)

lemma keep_headers [simp]: "r\<lparr>req_headers := req_headers r\<rparr> = (r :: http_request)"
  by simp

lemma run_value:
  "\<forall>c \<in> set v. field_char c \<Longrightarrow> req_headers r \<noteq> [] \<Longrightarrow>
     parse header_value r (v @ CRLF @ cs) =
       parse header_line_start (r\<lparr>req_headers := append_value (req_headers r) v\<rparr>) cs"
proof (induction v arbitrary: r)
  case (Cons c v)
  then have "c \<noteq> CR" using field_char_delims by auto
  with Cons show ?case by (simp add: step_simps)
qed (simp add: step_simps)

lemma inv_value:
  "settled (parse header_value r inp) \<Longrightarrow> req_headers r \<noteq> [] \<Longrightarrow>
     \<exists>v cs. (\<forall>c \<in> set v. field_char c) \<and> inp = v @ CRLF @ cs"
proof (induction inp arbitrary: r)
  case (Cons c cs)
  show ?case
  proof (cases "c = CR")
    case True
    with Cons.prems have "settled (parse expecting_newline_2 r cs)" by (simp add: step_simps)
    then obtain ds where "cs = LF # ds" using inv_exactly [of expecting_newline_2 r cs] by auto
    with True have "(\<forall>c \<in> set []. field_char c) \<and> c # cs = [] @ CRLF @ ds" by simp
    then show ?thesis by blast
  next
    case False
    with Cons.prems have "field_char c" by (auto simp: step_simps split: if_splits)
    with False Cons.prems
    have "settled (parse header_value (r\<lparr>req_headers := append_value (req_headers r) [c]\<rparr>) cs)"
      by (simp add: step_simps)
    with Cons.IH obtain v ds where "\<forall>c \<in> set v. field_char c" "cs = v @ CRLF @ ds" by force
    with \<open>field_char c\<close> have "(\<forall>c \<in> set (c # v). field_char c) \<and> c # cs = (c # v) @ CRLF @ ds"
      by simp
    then show ?thesis by blast
  qed
qed simp

lemma run_lws:
  "\<forall>c \<in> set ws. c = SP \<or> c = HT \<Longrightarrow> \<forall>c \<in> set v. field_char c \<Longrightarrow> v \<noteq> [] \<longrightarrow> hd v \<noteq> SP \<Longrightarrow>
     req_headers r \<noteq> [] \<Longrightarrow>
     parse header_lws r (ws @ v @ CRLF @ cs) =
       parse header_line_start (r\<lparr>req_headers := append_value (req_headers r) v\<rparr>) cs"
proof (induction ws)
  case Nil
  show ?case
  proof (cases v)
    case (Cons c v')
    with Nil have "c \<noteq> CR" "c \<noteq> HT" "c \<noteq> SP" using field_char_delims by auto
    with Nil Cons show ?thesis
      using run_value [of v' "r\<lparr>req_headers := append_value (req_headers r) [c]\<rparr>" cs]
      by (simp add: step_simps)
  qed (use Nil in \<open>simp add: step_simps\<close>)
next
  case (Cons c ws)
  then have "c \<noteq> CR" by auto
  with Cons show ?case by (simp add: step_simps)
qed

lemma inv_lws:
  "settled (parse header_lws r inp) \<Longrightarrow> req_headers r \<noteq> [] \<Longrightarrow>
     \<exists>ws v cs. (\<forall>c \<in> set ws. c = SP \<or> c = HT) \<and> (\<forall>c \<in> set v. field_char c) \<and>
       (v \<noteq> [] \<longrightarrow> hd v \<noteq> SP) \<and> inp = ws @ v @ CRLF @ cs"
proof (induction inp)
  case (Cons c cs)
  consider (cr) "c = CR" | (blank) "c \<noteq> CR" "c = SP \<or> c = HT"
    | (plain) "c \<noteq> CR" "\<not> (c = SP \<or> c = HT)" by blast
  then show ?case
  proof cases
    case cr
    with Cons.prems have "settled (parse expecting_newline_2 r cs)" by (simp add: step_simps)
    then obtain ds where "cs = LF # ds" using inv_exactly [of expecting_newline_2 r cs] by auto
    with cr have "c # cs = [] @ [] @ CRLF @ ds" by simp
    then show ?thesis by (metis empty_iff list.set(1))
  next
    case blank
    with Cons.prems have "settled (parse header_lws r cs)" by (auto simp: step_simps)
    with Cons.IH Cons.prems(2) obtain ws v ds where
      w: "\<forall>c \<in> set ws. c = SP \<or> c = HT" "\<forall>c \<in> set v. field_char c" "v \<noteq> [] \<longrightarrow> hd v \<noteq> SP"
        "cs = ws @ v @ CRLF @ ds"
      by blast
    have "\<forall>c \<in> set (c # ws). c = SP \<or> c = HT" using w(1) blank(2) by simp
    moreover have "c # cs = (c # ws) @ v @ CRLF @ ds" using w(4) by simp
    ultimately show ?thesis using w(2,3) by blast
  next
    case plain
    with Cons.prems have "field_char c" by (auto simp: step_simps split: if_splits)
    with plain Cons.prems
    have "settled (parse header_value (r\<lparr>req_headers := append_value (req_headers r) [c]\<rparr>) cs)"
      by (simp add: step_simps)
    then obtain v ds where "\<forall>c \<in> set v. field_char c" "cs = v @ CRLF @ ds"
      using inv_value by force
    with \<open>field_char c\<close> plain have "(\<forall>c \<in> set (c # v). field_char c) \<and> (hd (c # v) \<noteq> SP) \<and>
        c # cs = [] @ (c # v) @ CRLF @ ds"
      by simp
    then show ?thesis by (metis empty_iff list.set(1))
  qed
qed simp

lemma run_name:
  "\<forall>c \<in> set n. token_char c \<Longrightarrow> \<forall>c \<in> set v. field_char c \<Longrightarrow> req_headers r \<noteq> [] \<Longrightarrow>
     parse header_name r (n @ CHR '':'' # SP # v @ CRLF @ cs) =
       parse header_line_start
         (r\<lparr>req_headers := append_value (append_name (req_headers r) n) v\<rparr>) cs"
proof (induction n arbitrary: r)
  case Nil
  then show ?case using run_value [of v r cs] by (simp add: step_simps)
next
  case (Cons c n)
  then have "c \<noteq> CHR '':''" using token_char_delims by auto
  with Cons show ?case by (simp add: step_simps)
qed

lemma inv_name:
  "settled (parse header_name r inp) \<Longrightarrow> req_headers r \<noteq> [] \<Longrightarrow>
     \<exists>n v cs. (\<forall>c \<in> set n. token_char c) \<and> (\<forall>c \<in> set v. field_char c) \<and>
       inp = n @ CHR '':'' # SP # v @ CRLF @ cs"
proof (induction inp arbitrary: r)
  case (Cons c cs)
  show ?case
  proof (cases "c = CHR '':''")
    case True
    with Cons.prems have "settled (parse space_before_header_value r cs)" by (simp add: step_simps)
    then obtain ds where "cs = SP # ds" "settled (parse header_value r ds)"
      using inv_exactly [of space_before_header_value r cs] by auto
    moreover from this Cons.prems obtain v es where "\<forall>c \<in> set v. field_char c" "ds = v @ CRLF @ es"
      using inv_value by blast
    ultimately have "(\<forall>c \<in> set []. token_char c) \<and> (\<forall>c \<in> set v. field_char c) \<and>
        c # cs = [] @ CHR '':'' # SP # v @ CRLF @ es"
      using True by simp
    then show ?thesis by blast
  next
    case False
    with Cons.prems have "token_char c" by (auto simp: step_simps split: if_splits)
    with False Cons.prems
    have "settled (parse header_name (r\<lparr>req_headers := append_name (req_headers r) [c]\<rparr>) cs)"
      by (simp add: step_simps)
    with Cons.IH obtain n v ds where "\<forall>c \<in> set n. token_char c" "\<forall>c \<in> set v. field_char c"
      "cs = n @ CHR '':'' # SP # v @ CRLF @ ds" by force
    with \<open>token_char c\<close> have "(\<forall>c \<in> set (c # n). token_char c) \<and> (\<forall>c \<in> set v. field_char c) \<and>
        c # cs = (c # n) @ CHR '':'' # SP # v @ CRLF @ ds"
      by simp
    then show ?thesis by blast
  qed
qed simp


lemma run_line:
  "line_ok l \<Longrightarrow> is_fold l \<longrightarrow> req_headers r \<noteq> [] \<Longrightarrow>
     parse header_line_start r (line_text l @ cs) =
       parse header_line_start (r\<lparr>req_headers := apply_line (req_headers r) l\<rparr>) cs"
proof (cases l)
  case (Field n v)
  moreover assume "line_ok l"
  ultimately obtain c n' where n: "n = c # n'" "token_char c" "\<forall>c \<in> set n'. token_char c"
    and v: "\<forall>c \<in> set v. field_char c"
    by (cases n) auto
  then have "c \<noteq> CR" "c \<noteq> SP" "c \<noteq> HT" using token_char_delims by auto
  then show ?thesis
    using Field n v run_name [of n' v _ cs] by (simp add: step_simps)
next
  case (Fold ws v)
  moreover assume "line_ok l" "is_fold l \<longrightarrow> req_headers r \<noteq> []"
  ultimately obtain c ws' where ws: "ws = c # ws'" "c = SP \<or> c = HT" "\<forall>c \<in> set ws'. c = SP \<or> c = HT"
    and v: "\<forall>c \<in> set v. field_char c" "v \<noteq> [] \<longrightarrow> hd v \<noteq> SP" "req_headers r \<noteq> []"
    by (cases ws) auto
  from ws have "c \<noteq> CR" by auto
  then show ?thesis
    using Fold ws v run_lws [of ws' v r cs] by (simp add: step_simps)
qed

lemma inv_line:
  assumes "settled (parse header_line_start r inp)"
  obtains (blank) cs where "inp = CRLF @ cs"
  | (line) l cs where "line_ok l" "is_fold l \<longrightarrow> req_headers r \<noteq> []" "inp = line_text l @ cs"
proof (cases inp)
  case Nil
  with assms show thesis by simp
next
  case (Cons c cs)
  consider (cr) "c = CR" | (fold) "c \<noteq> CR" "req_headers r \<noteq> []" "c = SP \<or> c = HT"
    | (field) "c \<noteq> CR" "\<not> (req_headers r \<noteq> [] \<and> (c = SP \<or> c = HT))" by blast
  then show thesis
  proof cases
    case cr
    with Cons assms have "settled (parse expecting_newline_3 r cs)" by (simp add: step_simps)
    then obtain ds where "cs = LF # ds" by (cases cs) (auto simp: step_simps split: if_splits)
    with cr Cons show thesis by (intro blank) simp
  next
    case fold
    with Cons assms have "settled (parse header_lws r cs)" by (auto simp: step_simps)
    then obtain ws v ds where "\<forall>c \<in> set ws. c = SP \<or> c = HT" "\<forall>c \<in> set v. field_char c"
      "v \<noteq> [] \<longrightarrow> hd v \<noteq> SP" "cs = ws @ v @ CRLF @ ds"
      using inv_lws fold(2) by blast
    with fold Cons show thesis by (intro line [of "Fold (c # ws) v" ds]) auto
  next
    case field
    with Cons assms have c: "token_char c" by (auto simp: step_simps split: if_splits)
    with field Cons assms
    have "settled (parse header_name
        (r\<lparr>req_headers := req_headers r @ [\<lparr>h_name = [c], h_value = []\<rparr>]\<rparr>) cs)"
      by (auto simp: step_simps split: if_splits)
    then obtain n v ds where "\<forall>c \<in> set n. token_char c" "\<forall>c \<in> set v. field_char c"
      "cs = n @ CHR '':'' # SP # v @ CRLF @ ds"
      using inv_name by fastforce
    with c Cons show thesis by (intro line [of "Field (c # n) v" ds]) auto
  qed
qed

lemma apply_line_nonempty [simp]: "apply_line hs l \<noteq> []"
  by (cases l) simp_all

lemma run_lines:
  "lines_ok (req_headers r \<noteq> []) ls \<Longrightarrow>
     parse header_line_start r (concat (map line_text ls) @ cs) =
       parse header_line_start (r\<lparr>req_headers := foldl apply_line (req_headers r) ls\<rparr>) cs"
proof (induction ls arbitrary: r)
  case (Cons l ls)
  then show ?case
    using run_line [of l r "concat (map line_text ls) @ cs"] by simp
qed simp

lemma inv_lines:
  "settled (parse header_line_start r inp) \<Longrightarrow>
     \<exists>ls cs. lines_ok (req_headers r \<noteq> []) ls \<and> inp = concat (map line_text ls) @ CRLF @ cs"
proof (induction inp arbitrary: r rule: length_induct)
  case (1 inp)
  from "1.prems" show ?case
  proof (cases rule: inv_line)
    case (blank cs)
    then have "lines_ok (req_headers r \<noteq> []) [] \<and> inp = concat (map line_text []) @ CRLF @ cs"
      by simp
    then show ?thesis by blast
  next
    case (line l cs)
    let ?r = "r\<lparr>req_headers := apply_line (req_headers r) l\<rparr>"
    have "settled (parse header_line_start ?r cs)"
      using "1.prems" line by (simp add: run_line)
    moreover have "length cs < length inp"
      using line by (cases l) simp_all
    ultimately obtain ls ds where "lines_ok True ls" "cs = concat (map line_text ls) @ CRLF @ ds"
      using "1.IH" by fastforce
    with line have "lines_ok (req_headers r \<noteq> []) (l # ls) \<and>
        inp = concat (map line_text (l # ls)) @ CRLF @ ds"
      by simp
    then show ?thesis by blast
  qed
qed


subsection \<open>Requests\<close>

definition request_of :: "string \<Rightarrow> string \<Rightarrow> int \<Rightarrow> int \<Rightarrow> header_line list \<Rightarrow> http_request" where
  "request_of m u v1 v2 ls =
     \<lparr>req_method = m, req_uri = u, http_version_major = v1, http_version_minor = v2,
      req_headers = foldl apply_line [] ls\<rparr>"

lemma run_request_line:
  assumes "method_ok m" "uri_ok u"
  shows "parse method_start empty_request (m @ SP # u @ '' HTTP/'' @ cs) =
    parse http_version_major_start (request_of m u 0 0 []) cs"
proof -
  obtain c m' where m: "m = c # m'" "token_char c" "\<forall>c \<in> set m'. token_char c"
    using assms(1) by (cases m) (auto simp: method_ok_def)
  then show ?thesis
    using run_method [of m' _ "u @ SP # ''HTTP/'' @ cs"] run_uri [OF assms(2), of _ "''HTTP/'' @ cs"]
      run_http [of _ cs]
    by (simp add: step_simps empty_request_def request_of_def)
qed

lemma run_version:
  assumes "number_ok vmaj" "number_ok vmin"
    and "version_value 0 vmaj = Some v1" "version_value 0 vmin = Some v2"
  shows "parse http_version_major_start (request_of m u 0 0 []) (version_text vmaj vmin @ cs) =
    parse header_line_start (request_of m u v1 v2 []) cs"
  using assms
  by (simp add: version_text_def run_major_start run_minor_start request_of_def step_simps)

lemma run_headers:
  "lines_ok False ls \<Longrightarrow>
     parse header_line_start (request_of m u v1 v2 []) (concat (map line_text ls) @ CRLF @ cs) =
       Some (good, cs, expecting_newline_3, request_of m u v1 v2 ls)"
  using run_lines [of "request_of m u v1 v2 []" ls "CRLF @ cs"]
  by (simp add: request_of_def step_simps)

lemma parse_request_text:
  assumes "method_ok m" "uri_ok u" "number_ok vmaj" "number_ok vmin"
    "version_value 0 vmaj = Some v1" "version_value 0 vmin = Some v2" "lines_ok False ls"
  shows "parse method_start empty_request (request_text m u vmaj vmin ls @ rest) =
    Some (good, rest, expecting_newline_3, request_of m u v1 v2 ls)"
  using run_request_line [OF assms(1,2)] run_version [OF assms(3-6)] run_headers [OF assms(7)]
  by (simp add: request_text_def)

lemma inv_request_line:
  assumes "settled (parse method_start empty_request inp)"
  obtains m u cs where "method_ok m" "uri_ok u" "inp = m @ SP # u @ '' HTTP/'' @ cs"
    "settled (parse http_version_major_start (request_of m u 0 0 []) cs)"
proof -
  from assms obtain c i1 where i: "inp = c # i1" "token_char c"
    and s: "settled (parse method_s (empty_request\<lparr>req_method := [c]\<rparr>) i1)"
    by (cases inp) (auto simp: step_simps empty_request_def split: if_splits)
  from inv_method [OF s] obtain m i2 where m: "\<forall>c \<in> set m. token_char c" "i1 = m @ SP # i2" by blast
  with s have s: "settled (parse uri_s (empty_request\<lparr>req_method := c # m\<rparr>) i2)"
    by (simp add: run_method)
  from inv_uri [OF s] obtain u i3 where u: "uri_ok u" "i2 = u @ SP # i3" by blast
  with s have "settled (parse http_version_h
      (empty_request\<lparr>req_method := c # m, req_uri := u\<rparr>) i3)"
    by (simp add: run_uri empty_request_def)
  from inv_http [OF this] obtain cs where "i3 = ''HTTP/'' @ cs" by blast
  moreover have ok: "method_ok (c # m)" using i m by (simp add: method_ok_def)
  ultimately have inp: "inp = (c # m) @ SP # u @ '' HTTP/'' @ cs" using i m u by simp
  have "settled (parse http_version_major_start (request_of (c # m) u 0 0 []) cs)"
    using assms run_request_line [OF ok u(1), of cs] unfolding inp by simp
  with ok u inp show thesis by (intro that)
qed


lemma parse_good_text:
  assumes "parse method_start empty_request inp = Some (good, rest, s, r)"
  shows "\<exists>m u vmaj vmin v1 v2 ls. method_ok m \<and> uri_ok u \<and> number_ok vmaj \<and> number_ok vmin \<and>
    version_value 0 vmaj = Some v1 \<and> version_value 0 vmin = Some v2 \<and> lines_ok False ls \<and>
    inp = request_text m u vmaj vmin ls @ rest \<and> s = expecting_newline_3 \<and> r = request_of m u v1 v2 ls"
proof -
  from assms have "settled (parse method_start empty_request inp)" by simp
  then obtain m u c1 where mu: "method_ok m" "uri_ok u" and inp: "inp = m @ SP # u @ '' HTTP/'' @ c1"
    and s1: "settled (parse http_version_major_start (request_of m u 0 0 []) c1)"
    by (rule inv_request_line)
  have g1: "parse http_version_major_start (request_of m u 0 0 []) c1 = Some (good, rest, s, r)"
    using assms run_request_line [OF mu, of c1] inp by simp
  from s1 obtain vmaj v1 c2 where maj: "number_ok vmaj" "version_value 0 vmaj = Some v1"
    and c1: "c1 = vmaj @ CHR ''.'' # c2"
    using g1 by (cases rule: inv_major_start) (auto simp: request_of_def run_major_start)
  have g2: "parse http_version_minor_start (request_of m u v1 0 []) c2 = Some (good, rest, s, r)"
    using g1 maj c1 by (simp add: run_major_start request_of_def step_simps)
  then have "settled (parse http_version_minor_start (request_of m u v1 0 []) c2)" by simp
  then obtain vmin v2 c3 where vmin: "number_ok vmin" "version_value 0 vmin = Some v2"
    and c2: "c2 = vmin @ CRLF @ c3"
    using g2 by (cases rule: inv_minor_start) (auto simp: request_of_def run_minor_start)
  have g3: "parse header_line_start (request_of m u v1 v2 []) c3 = Some (good, rest, s, r)"
    using g2 vmin c2 by (simp add: run_minor_start request_of_def step_simps)
  then have "settled (parse header_line_start (request_of m u v1 v2 []) c3)" by simp
  then obtain ls c4 where ls: "lines_ok False ls" and c3: "c3 = concat (map line_text ls) @ CRLF @ c4"
    using inv_lines by (force simp: request_of_def)
  have "Some (good, c4, expecting_newline_3, request_of m u v1 v2 ls) = Some (good, rest, s, r)"
    using g3 run_headers [OF ls, of m u v1 v2 c4] c3 by simp
  then show ?thesis
    using mu maj vmin ls inp c1 c2 c3 by (fastforce simp: request_text_def version_text_def)
qed

text \<open>
  The parser adds the character of a digit before it subtracts the character \<open>0\<close>, so a number must stay
  48 below \<^verbatim>\<open>INT_MAX\<close> to be read without overflow.
\<close>

definition version_fits :: "string \<Rightarrow> bool" where
  "version_fits ds \<longleftrightarrow> int (decimal ds) + 48 \<le> INT_MAX"

definition digits_value :: "int \<Rightarrow> string \<Rightarrow> int" where
  "digits_value v ds = foldl (\<lambda>v c. v * 10 + char_int c - 48) v ds"

lemma digits_value_ge: "\<forall>c \<in> set ds. digit_char_p c \<Longrightarrow> 0 \<le> v \<Longrightarrow> v \<le> digits_value v ds"
proof (induction ds arbitrary: v)
  case (Cons c ds)
  have "48 \<le> char_int c" using Cons.prems(1) digit_range by auto
  then have "v \<le> v * 10 + char_int c - 48" "0 \<le> v * 10 + char_int c - 48" using Cons.prems(2) by auto
  with Cons.IH [of "v * 10 + char_int c - 48"] Cons.prems(1) show ?case by (simp add: digits_value_def)
qed (simp add: digits_value_def)

lemma version_value_eq:
  "\<forall>c \<in> set ds. digit_char_p c \<Longrightarrow> 0 \<le> v \<Longrightarrow> version_value v ds =
     (if ds = [] \<or> digits_value v ds + 48 \<le> INT_MAX then Some (digits_value v ds) else None)"
proof (induction ds arbitrary: v)
  case (Cons c ds)
  let ?w = "v * 10 + char_int c - 48"
  have c: "48 \<le> char_int c" "char_int c \<le> 57" using Cons.prems(1) digit_range by auto
  then have w: "0 \<le> ?w" using Cons.prems(2) by simp
  have ge: "?w \<le> digits_value ?w ds" using Cons.prems(1) w by (intro digits_value_ge) auto
  have val: "digits_value v (c # ds) = digits_value ?w ds" by (simp add: digits_value_def)
  show ?case
  proof (cases "v * 10 + char_int c \<le> INT_MAX")
    case True
    then have "version_value v (c # ds) = version_value ?w ds"
      using Cons.prems by (simp add: push_digit_eq)
    moreover have "version_value ?w ds =
        (if ds = [] \<or> digits_value ?w ds + 48 \<le> INT_MAX then Some (digits_value ?w ds) else None)"
      using Cons.prems(1) w by (intro Cons.IH) auto
    moreover have "ds = [] \<Longrightarrow> digits_value ?w ds + 48 \<le> INT_MAX"
      using True by (simp add: digits_value_def)
    ultimately show ?thesis unfolding val by auto
  next
    case False
    with ge show ?thesis using Cons.prems by (simp add: push_digit_eq val)
  qed
qed (simp add: digits_value_def)

lemma digits_value_decimal: "\<forall>c \<in> set ds. digit_char_p c \<Longrightarrow> digits_value 0 ds = int (decimal ds)"
proof (induction ds rule: rev_induct)
  case (snoc c ds)
  have c: "48 \<le> char_int c" "char_int c \<le> 57" using snoc.prems digit_range by auto
  then have "(of_char c :: int) = char_int c"
    using of_char_int_bounds [of c] by (auto simp: char_int_def Let_def split: if_splits)
  moreover have "int (of_char c) = of_char c" by (rule of_nat_of_char)
  ultimately have "int (digit_value c) = char_int c - 48" using c by (simp add: digit_value_def of_nat_diff)
  with snoc show ?case by (simp add: digits_value_def decimal_def)
qed (simp add: digits_value_def decimal_def)

lemma version_value_decimal:
  "number_ok ds \<Longrightarrow> version_value 0 ds = (if version_fits ds then Some (int (decimal ds)) else None)"
  by (simp add: number_ok_def version_value_eq digits_value_decimal version_fits_def)

definition overlong_major :: "string \<Rightarrow> bool" where
  "overlong_major inp \<longleftrightarrow> (\<exists>m u ds rest. method_ok m \<and> uri_ok u \<and> number_ok ds \<and>
     \<not> version_fits ds \<and> inp = m @ SP # u @ '' HTTP/'' @ ds @ rest)"

definition overlong_minor :: "string \<Rightarrow> bool" where
  "overlong_minor inp \<longleftrightarrow> (\<exists>m u vmaj ds rest. method_ok m \<and> uri_ok u \<and> number_ok vmaj \<and>
     number_ok ds \<and> version_fits vmaj \<and> \<not> version_fits ds \<and>
     inp = m @ SP # u @ '' HTTP/'' @ vmaj @ CHR ''.'' # ds @ rest)"

lemma overlong_major_value:
  "overlong_major inp \<longleftrightarrow> (\<exists>m u ds rest. method_ok m \<and> uri_ok u \<and> number_ok ds \<and>
     version_value 0 ds = None \<and> inp = m @ SP # u @ '' HTTP/'' @ ds @ rest)"
  unfolding overlong_major_def
  by (intro iff_exI conj_cong refl) (simp add: version_value_decimal)

lemma overlong_minor_value:
  "overlong_minor inp \<longleftrightarrow> (\<exists>m u vmaj v ds rest. method_ok m \<and> uri_ok u \<and> number_ok vmaj \<and>
     number_ok ds \<and> version_value 0 vmaj = Some v \<and> version_value 0 ds = None \<and>
     inp = m @ SP # u @ '' HTTP/'' @ vmaj @ CHR ''.'' # ds @ rest)"
proof -
  have "(\<exists>v. number_ok vmaj \<and> number_ok ds \<and> version_value 0 vmaj = Some v \<and> version_value 0 ds = None) \<longleftrightarrow>
      number_ok vmaj \<and> number_ok ds \<and> version_fits vmaj \<and> \<not> version_fits ds" for vmaj ds
    by (auto simp: version_value_decimal split: if_split_asm)
  then show ?thesis unfolding overlong_minor_def by blast
qed

lemma parse_header_lines_defined: "parser_inv s r \<Longrightarrow>
    s \<in> {header_line_start, header_lws, header_name, space_before_header_value, header_value,
       expecting_newline_2, expecting_newline_3} \<Longrightarrow> parse s r inp \<noteq> None"
proof (induction inp arbitrary: s r)
  case (Cons c cs)
  then have "consume s r c \<noteq> None"
    by (auto simp: consume_None_iff version_overflow_def)
  then obtain v s' r' where c: "consume s r c = Some (v, s', r')" by auto
  moreover have "s' \<in> {header_line_start, header_lws, header_name, space_before_header_value,
      header_value, expecting_newline_2, expecting_newline_3}"
    using Cons.prems(2) c by (auto simp: consume_defs bind_eq_Some_conv split: if_splits)
  ultimately show ?case using Cons.IH consume_inv [OF Cons.prems(1) c] by simp
qed simp

lemma parse_None_overlong:
  assumes "parse method_start empty_request inp = None"
  shows "overlong_major inp \<or> overlong_minor inp"
proof -
  from assms have "settled (parse method_start empty_request inp)" by simp
  then obtain m u c1 where mu: "method_ok m" "uri_ok u" and inp: "inp = m @ SP # u @ '' HTTP/'' @ c1"
    and s1: "settled (parse http_version_major_start (request_of m u 0 0 []) c1)"
    by (rule inv_request_line)
  have g1: "parse http_version_major_start (request_of m u 0 0 []) c1 = None"
    using assms run_request_line [OF mu, of c1] inp by simp
  from s1 show ?thesis
  proof (cases rule: inv_major_start)
    case (overflow ds cs)
    with mu inp show ?thesis by (auto simp: overlong_major_value request_of_def)
  next
    case (number vmaj v1 c2)
    then have g2: "parse http_version_minor_start (request_of m u v1 0 []) c2 = None"
      using g1 by (simp add: run_major_start request_of_def step_simps)
    then have "settled (parse http_version_minor_start (request_of m u v1 0 []) c2)" by simp
    then show ?thesis
    proof (cases rule: inv_minor_start)
      case (overflow ds cs)
      with mu inp number show ?thesis
        by (fastforce simp: overlong_minor_value request_of_def)
    next
      case n2: (number vmin v2 c3)
      then have "parse header_line_start (request_of m u v1 v2 []) c3 = None"
        using g2 by (simp add: run_minor_start request_of_def step_simps)
      then show ?thesis
        using parse_header_lines_defined [of header_line_start] by (simp add: parser_inv_def)
    qed
  qed
qed

lemma parse_overlong_None:
  assumes "overlong_major inp \<or> overlong_minor inp"
  shows "parse method_start empty_request inp = None"
  using assms
proof
  assume "overlong_major inp"
  then obtain m u ds rest where "method_ok m" "uri_ok u" "number_ok ds" "version_value 0 ds = None"
    "inp = m @ SP # u @ '' HTTP/'' @ ds @ rest"
    by (auto simp: overlong_major_value)
  then show ?thesis
    using run_request_line [of m u "ds @ rest"] by (simp add: run_major_start request_of_def)
next
  assume "overlong_minor inp"
  then obtain m u vmaj v ds rest where "method_ok m" "uri_ok u" "number_ok vmaj" "number_ok ds"
    "version_value 0 vmaj = Some v" "version_value 0 ds = None"
    "inp = m @ SP # u @ '' HTTP/'' @ vmaj @ CHR ''.'' # ds @ rest"
    by (auto simp: overlong_minor_value)
  then show ?thesis
    using run_request_line [of m u "vmaj @ CHR ''.'' # ds @ rest"]
    by (simp add: run_major_start run_minor_start request_of_def step_simps)
qed

text \<open>Nine digits never overflow.\<close>

lemma version_value_bound:
  "\<forall>c \<in> set ds. digit_char_p c \<Longrightarrow> 0 \<le> v \<Longrightarrow> v < 10 ^ k \<Longrightarrow> k + length ds \<le> 9 \<Longrightarrow>
     \<exists>w. version_value v ds = Some w \<and> 0 \<le> w \<and> w < 10 ^ (k + length ds)"
proof (induction ds arbitrary: v k)
  case (Cons c ds)
  let ?w = "v * 10 + char_int c - 48"
  have c: "48 \<le> char_int c" "char_int c \<le> 57" using Cons.prems(1) digit_range by auto
  have "(10::int) ^ Suc k \<le> 10 ^ 9" using Cons.prems(4) by (intro power_increasing) auto
  then have "v * 10 + char_int c \<le> INT_MAX"
    using Cons.prems(3) c by (simp add: INT_MAX_def)
  then have "push_digit v c = Some ?w"
    using Cons.prems(1,2) by (simp add: push_digit_eq)
  moreover have "0 \<le> ?w" "?w < 10 ^ Suc k" using Cons.prems(2,3) c by auto
  ultimately show ?case using Cons.IH [of ?w "Suc k"] Cons.prems(1,4) by simp
qed simp

lemma overlong_has_ten_digits:
  assumes "overlong_major inp \<or> overlong_minor inp"
  shows "\<exists>ds. sublist ds inp \<and> 10 \<le> length ds \<and> (\<forall>c \<in> set ds. digit_char_p c)"
proof -
  have long: "10 \<le> length ds" if "number_ok ds" "version_value 0 ds = None" for ds
    using version_value_bound [of ds 0 0] that by (force simp: number_ok_def not_le)
  from assms show ?thesis
  proof
    assume "overlong_major inp"
    then obtain m u ds rest where ds: "number_ok ds" "version_value 0 ds = None"
      "inp = (m @ SP # u @ '' HTTP/'') @ ds @ rest"
      by (auto simp: overlong_major_value)
    then have "sublist ds inp" by (metis sublist_appendI)
    with ds long show ?thesis by (auto simp: number_ok_def)
  next
    assume "overlong_minor inp"
    then obtain m u vmaj ds rest where ds: "number_ok ds" "version_value 0 ds = None"
      "inp = (m @ SP # u @ '' HTTP/'' @ vmaj @ ''.'') @ ds @ rest"
      by (auto simp: overlong_minor_value)
    then have "sublist ds inp" by (metis sublist_appendI)
    with ds long show ?thesis by (auto simp: number_ok_def)
  qed
qed


subsection \<open>What a parsed request looks like\<close>

definition field_ok :: "header \<Rightarrow> bool" where
  "field_ok h \<longleftrightarrow> h_name h \<noteq> [] \<and> (\<forall>c \<in> set (h_name h). token_char c) \<and>
     (\<forall>c \<in> set (h_value h). field_char c)"

definition request_ok :: "http_request \<Rightarrow> bool" where
  "request_ok r \<longleftrightarrow> method_ok (req_method r) \<and> uri_ok (req_uri r) \<and>
     0 \<le> http_version_major r \<and> http_version_major r \<le> INT_MAX \<and>
     0 \<le> http_version_minor r \<and> http_version_minor r \<le> INT_MAX \<and>
     (\<forall>h \<in> set (req_headers r). field_ok h)"

lemma apply_line_field_ok:
  assumes "line_ok l" "is_fold l \<longrightarrow> hs \<noteq> []" "\<forall>h \<in> set hs. field_ok h"
  shows "\<forall>h \<in> set (apply_line hs l). field_ok h"
proof (cases l)
  case (Field n v)
  with assms show ?thesis by (auto simp: field_ok_def)
next
  case (Fold ws v)
  with assms have "field_ok (last hs)" "\<forall>h \<in> set (butlast hs). field_ok h"
    by (auto dest: in_set_butlastD)
  with Fold assms(1) show ?thesis by (auto simp: append_value_def field_ok_def)
qed

lemma lines_field_ok:
  "lines_ok (hs \<noteq> []) ls \<Longrightarrow> \<forall>h \<in> set hs. field_ok h \<Longrightarrow>
     \<forall>h \<in> set (foldl apply_line hs ls). field_ok h"
proof (induction ls arbitrary: hs)
  case (Cons l ls)
  then have "\<forall>h \<in> set (apply_line hs l). field_ok h" by (intro apply_line_field_ok) auto
  with Cons.IH [of "apply_line hs l"] Cons.prems show ?case by simp
qed simp

lemma version_value_range:
  "version_value v ds = Some w \<Longrightarrow> \<forall>c \<in> set ds. digit_char_p c \<Longrightarrow> 0 \<le> v \<Longrightarrow> v \<le> INT_MAX \<Longrightarrow>
     0 \<le> w \<and> w \<le> INT_MAX"
proof (induction ds arbitrary: v)
  case (Cons c ds)
  then obtain v' where v': "push_digit v c = Some v'" "version_value v' ds = Some w"
    by (auto simp: bind_eq_Some_conv)
  then have "0 \<le> v'" "v' \<le> INT_MAX"
    using Cons.prems digit_range [of c] by (auto simp: push_digit_eq split: if_splits)
  with v' Cons show ?case by simp
qed simp

lemma parsed_request_ok:
  "parse method_start empty_request inp = Some (good, rest, s, r) \<Longrightarrow> request_ok r"
  using parse_good_text [of inp rest s r] lines_field_ok [of "[]"]
  by (auto simp: request_ok_def request_of_def number_ok_def INT_MAX_def
      dest!: version_value_range)

lemma field_char_one_line: "\<forall>c \<in> set s. field_char c \<Longrightarrow> one_line s"
  using field_char_delims by (auto simp: one_line_def)

lemma request_ok_uri_one_line: "request_ok r \<Longrightarrow> one_line (req_uri r)"
  by (simp add: request_ok_def uri_ok_def field_char_one_line)

lemma request_ok_get_header_one_line: "request_ok r \<Longrightarrow> one_line (get_header r n)"
  using get_header_cases [of r n] by (auto simp: request_ok_def field_ok_def field_char_one_line)


lemma parse_request_fits:
  assumes "method_ok m" "uri_ok u" "number_ok vmaj" "number_ok vmin" "version_fits vmaj" "version_fits vmin"
    and "lines_ok False ls"
  shows "parse method_start empty_request (request_text m u vmaj vmin ls @ rest) =
    Some (good, rest, expecting_newline_3, request_of m u (int (decimal vmaj)) (int (decimal vmin)) ls)"
  using assms by (intro parse_request_text) (simp_all add: version_value_decimal)

lemma parse_good_iff:
  "parse method_start empty_request inp = Some (good, rest, s, r) \<longleftrightarrow>
     (\<exists>m u vmaj vmin ls. method_ok m \<and> uri_ok u \<and> number_ok vmaj \<and> number_ok vmin \<and>
        version_fits vmaj \<and> version_fits vmin \<and> lines_ok False ls \<and>
        inp = request_text m u vmaj vmin ls @ rest \<and> s = expecting_newline_3 \<and>
        r = request_of m u (int (decimal vmaj)) (int (decimal vmin)) ls)"
  (is "?parsed \<longleftrightarrow> ?text")
proof
  assume ?parsed
  from parse_good_text [OF this] obtain m u vmaj vmin v1 v2 ls where
    t: "method_ok m" "uri_ok u" "number_ok vmaj" "number_ok vmin" "lines_ok False ls"
      "inp = request_text m u vmaj vmin ls @ rest" "s = expecting_newline_3" "r = request_of m u v1 v2 ls"
    and v: "version_value 0 vmaj = Some v1" "version_value 0 vmin = Some v2" by blast
  have "version_fits vmaj \<and> v1 = int (decimal vmaj)" "version_fits vmin \<and> v2 = int (decimal vmin)"
    using v t(3,4) by (simp_all add: version_value_decimal split: if_splits)
  with t show ?text by blast
next
  assume ?text
  then show ?parsed using parse_request_fits by blast
qed

lemma parse_undefined:
  "parse method_start empty_request inp = None \<longleftrightarrow> overlong_major inp \<or> overlong_minor inp"
  using parse_None_overlong parse_overlong_None by blast

text \<open>A request whose version number is past \<^verbatim>\<open>INT_MAX\<close>, and one with a folded header\<close>

lemma overflow_example:
  "parse method_start empty_request ''GET / HTTP/9999999999'' = None"
  by code_simp

lemma fold_example:
  "map_option (\<lambda>(v, rest, s, r). get_header r ''a'')
     (parse method_start empty_request
       (''GET / HTTP/1.0'' @ CRLF @ ''A: b'' @ CRLF @ '' c'' @ CRLF @ CRLF)) = Some ''bc''"
  by code_simp


subsection \<open>Properties\<close>

text \<open>
  C11 (parser_accepts_iff): the parser accepts an input exactly when it starts with the text of a
  request in the grammar, and then returns that request and what follows its text. A continuation
  line is appended to the value before it, without the blanks that introduce it.
\<close>

theorem parser_accepts_iff:
  "parse method_start empty_request inp = Some (good, rest, s, r) \<longleftrightarrow>
     (\<exists>m u vmaj vmin ls. method_ok m \<and> uri_ok u \<and> number_ok vmaj \<and> number_ok vmin \<and>
        version_fits vmaj \<and> version_fits vmin \<and> lines_ok False ls \<and>
        inp = request_text m u vmaj vmin ls @ rest \<and> s = expecting_newline_3 \<and>
        r = request_of m u (int (decimal vmaj)) (int (decimal vmin)) ls)"
  by (rule parse_good_iff)

text \<open>
  C17 (parser_undefined_iff): on input from a new connection the parser runs into undefined behaviour
  exactly when the major or the minor version of the request line comes within 48 of \<^verbatim>\<open>INT_MAX\<close>; in
  particular \<^verbatim>\<open>headers.back()\<close> is never called on an empty vector.
\<close>

theorem parser_undefined_iff:
  "parse method_start empty_request inp = None \<longleftrightarrow> overlong_major inp \<or> overlong_minor inp"
  by (rule parse_undefined)

text \<open>
  An input without ten digits in a row is parsed without
  undefined behaviour.
\<close>

theorem parser_defined_short_versions:
  assumes "\<And>ds. sublist ds inp \<Longrightarrow> \<forall>c \<in> set ds. digit_char_p c \<Longrightarrow> length ds < 10"
  shows "\<exists>v rest s r. parse method_start empty_request inp = Some (v, rest, s, r)"
proof (cases "parse method_start empty_request inp")
  case None
  with overlong_has_ten_digits obtain ds where
    "sublist ds inp" "10 \<le> length ds" "\<forall>c \<in> set ds. digit_char_p c"
    unfolding parse_undefined by blast
  with assms [of ds] show ?thesis by simp
next
  case (Some p)
  then show ?thesis by (cases p) simp
qed

theorem parser_defined_short_versions_witness:
  "\<exists>v rest s r. parse method_start empty_request ''GET /1'' = Some (v, rest, s, r)"
proof (rule parser_defined_short_versions)
  fix ds assume "sublist ds ''GET /1''"
  then have "length ds \<le> length ''GET /1''" by (rule sublist_length_le)
  then show "length ds < 10" by simp
qed

text \<open>
  C33 (parsed_request_wf): the fields of an accepted request are what the grammar says: a method and
  header names made of token characters, a URI without blanks, versions that fit an \<^verbatim>\<open>int\<close>, and no
  control character anywhere, so no line break.
\<close>

theorem parsed_request_wf:
  "parse method_start empty_request inp = Some (good, rest, s, r) \<Longrightarrow> request_ok r"
  by (rule parsed_request_ok)

theorem parsed_request_wf_witness:
  "request_ok (request_of ''GET'' ''/'' 1 0 [Field ''A'' ''b''])"
  using parsed_request_wf [of "request_text ''GET'' ''/'' ''1'' ''0'' [Field ''A'' ''b'']" "[]"
      expecting_newline_3 "request_of ''GET'' ''/'' 1 0 [Field ''A'' ''b'']"]
    parse_request_text [of "''GET''" "''/''" "''1''" "''0''" 1 0 "[Field ''A'' ''b'']" "[]"]
  by (simp; code_simp)

end
