(* ===== verification/Server_Main.thy ===== *)
theory Server_Main
  imports Path_Router Https_Server Request_Grammar
begin

section \<open>The server program (\<open>src/server/main.cpp\<close>)\<close>

text \<open>
  The handlers that the \<^verbatim>\<open>f16server\<close> program installs: the routers of its two modes and the
  handler of a \<open>return\<close> section, which answers with a fixed status and headers in which
  \<^verbatim>\<open>$host\<close> and \<^verbatim>\<open>$request_uri\<close> are replaced. The configuration is what the JSON library returns for
  its keys.
\<close>

definition simple_router :: "sorter \<Rightarrow> string \<Rightarrow> router" where
  "simple_router srt root_doc = add srt ''/'' (static_content root_doc) Map.empty"

text \<open>A \<open>locations\<close> section: the \<open>root\<close> and the \<open>location\<close> of each entry\<close>

definition locations_router :: "sorter \<Rightarrow> (string \<times> string) list \<Rightarrow> router" where
  "locations_router srt entries =
     foldl (\<lambda>R (root, loc). add srt loc (static_content root) R) Map.empty entries"

definition missing_host :: reply where
  "missing_host =
     (let c = ''Missing 'Host' header in the request'' in
      \<lparr>status = bad_request,
       rep_headers = [\<lparr>h_name = ''Content-Length'', h_value = to_string (length c)\<rparr>,
                      \<lparr>h_name = ''Content-Type'', h_value = extension_to_type ''.txt''\<rparr>],
       content = c\<rparr>)"

text \<open>
  A header of the section is a JSON object, given by its members; of several the last one counts. A value that is
  no string throws here, when a request is served.
\<close>

fun items_loop :: "(string \<times> string typed) list \<Rightarrow> string \<times> string \<Rightarrow> exn + string \<times> string" where
  "items_loop [] acc = Inr acc"
| "items_loop ((k, v) # items) acc = andthen (convert v) (\<lambda>val. items_loop items (k, val))"

definition last_item :: "(string \<times> string typed) list \<Rightarrow> exn + string \<times> string" where
  "last_item items = items_loop items ([], [])"

text \<open>The host without its port: everything from the first colon on is erased.\<close>

definition strip_port :: "string \<Rightarrow> string" where
  "strip_port host =
     (case find_from (CHR '':'') host 0 of Some pos \<Rightarrow> substr host 0 pos | None \<Rightarrow> host)"

text \<open>The value of a header, or \<open>None\<close> when the request has no host and one is needed\<close>

definition expand :: "http_request \<Rightarrow> string \<Rightarrow> string option" where
  "expand req val =
     map_option (\<lambda>v. case find_str ''$request_uri'' v of
         Some i \<Rightarrow> replace_at v i 12 (req_uri req)
       | None \<Rightarrow> v)
     (case find_str ''$host'' val of
        None \<Rightarrow> Some val
      | Some i \<Rightarrow>
          (let host = get_header req ''host'' in
           if host = [] then None else Some (replace_at val i 5 (strip_port host))))"

fun return_headers :: "http_request \<Rightarrow> (string \<times> string typed) list list \<Rightarrow> reply \<Rightarrow> exn + reply" where
  "return_headers req [] rep = Inr rep"
| "return_headers req (items # entries) rep =
     andthen (last_item items) (\<lambda>(name, val).
       case expand req val of
         None \<Rightarrow> Inr missing_host
       | Some v \<Rightarrow> return_headers req entries
           (rep\<lparr>rep_headers := rep_headers rep @ [\<lparr>h_name = name, h_value = v\<rparr>]\<rparr>))"

definition return_handler :: "status_type \<Rightarrow> (string \<times> string typed) list list \<Rightarrow> http_request \<Rightarrow> reply \<Rightarrow>
    exn + reply" where
  "return_handler st entries req rep = return_headers req entries (stock_reply st)"

text \<open>The set-up of a \<open>return\<close> section: an unknown status ends the program.\<close>

definition build_return :: "string \<Rightarrow> (string \<times> string typed) list list \<Rightarrow>
    exn + (http_request \<Rightarrow> reply \<Rightarrow> exn + reply)" where
  "build_return status_s entries =
     andthen (status_from_string status_s) (\<lambda>st. Inr (return_handler st entries))"


subsection \<open>The routers\<close>

context std_sort
begin

lemma srt_single: "srt [e] = [e]"
  using mset_srt [of "[e]"] by (simp add: mset_single_iff)

end

lemma simple_router_entries:
  assumes "std_sort srt"
  shows "entries_of (simple_router srt root) m =
    (if m = ''GET'' then [\<lparr>location = ''/'', entry_handler = static_content root\<rparr>] else [])"
  using std_sort.srt_single [OF assms] by (simp add: simple_router_def entries_of_def add_def Let_def)

lemma locations_router_eq:
  "locations_router srt entries =
     resources_after srt (map (\<lambda>(root, loc). (loc, static_content root)) entries)"
proof (induction entries rule: rev_induct)
  case Nil
  then show ?case by (simp add: locations_router_def resources_after_def)
next
  case (snoc e entries)
  then show ?case
    by (cases e) (simp add: locations_router_def resources_after_def)
qed

lemma simple_router_eq: "simple_router srt root = locations_router srt [(root, ''/'')]"
  by (simp add: simple_router_def locations_router_def)


subsection \<open>The return handler\<close>

lemma strip_port_eq: "strip_port h = takeWhile (\<lambda>c. c \<noteq> CHR '':'') h"
  using substr_find_from [where c = "CHR '':''" and s = h and pos = 0] by (simp add: strip_port_def split: option.splits)

lemma strip_port_one_line: "one_line h \<Longrightarrow> one_line (strip_port h)"
  by (auto simp: strip_port_eq one_line_def dest: set_takeWhileD)

lemma items_loop_typed:
  "items_loop (map (\<lambda>(k, v). (k, Typed v)) kvs) acc = Inr (if kvs = [] then acc else last kvs)"
  by (induction kvs arbitrary: acc) auto

lemma last_item_typed: "kvs \<noteq> [] \<Longrightarrow> last_item (map (\<lambda>(k, v). (k, Typed v)) kvs) = Inr (last kvs)"
  by (simp add: last_item_def items_loop_typed)

lemma one_line_take_drop: "one_line s \<Longrightarrow> one_line (take n s) \<and> one_line (drop n s)"
  by (auto simp: one_line_def dest: in_set_takeD in_set_dropD)

lemma one_line_replace_at: "one_line s \<Longrightarrow> one_line t \<Longrightarrow> one_line (replace_at s i n t)"
  by (simp add: replace_at_def one_line_take_drop)

lemma expand_one_line:
  assumes "one_line val" "one_line (req_uri req)" "one_line (get_header req ''host'')" "expand req val = Some v"
  shows "one_line v"
  using assms
  by (auto simp: expand_def Let_def one_line_replace_at strip_port_one_line split: option.splits if_splits)

lemma missing_host_ok: "framed missing_host \<and> headers_ok missing_host"
proof -
  have "header_values ''Content-Length'' missing_host = [to_string (length (content missing_host))]"
    by (simp add: missing_host_def Let_def header_values_def)
  moreover have "headers_ok missing_host"
    by (simp add: missing_host_def Let_def headers_ok_def header_ok_def)
  ultimately show ?thesis by (simp add: framed_def)
qed

text \<open>The names and values of a section that is fit to be sent\<close>

definition section_ok :: "(string \<times> string typed) list list \<Rightarrow> bool" where
  "section_ok entries \<longleftrightarrow> (\<forall>items \<in> set entries. case last_item items of Inl e \<Rightarrow> True | Inr (n, v) \<Rightarrow>
     one_line n \<and> CHR '':'' \<notin> set n \<and> n \<noteq> ''Content-Length'' \<and> one_line v)"

lemma return_headers_ok:
  assumes "section_ok entries" "one_line (req_uri req)" "one_line (get_header req ''host'')"
    "framed rep" "headers_ok rep" "return_headers req entries rep = Inr r"
  shows "framed r \<and> headers_ok r"
  using assms(1,4-6)
proof (induction entries arbitrary: rep)
  case (Cons items entries)
  from Cons.prems(4) obtain n v where nv: "last_item items = Inr (n, v)"
    by (cases "last_item items") auto
  with Cons.prems have n: "one_line n" "CHR '':'' \<notin> set n" "n \<noteq> ''Content-Length''" "one_line v"
    and rest: "section_ok entries" by (simp_all add: section_ok_def)
  show ?case
  proof (cases "expand req v")
    case None
    with nv missing_host_ok Cons.prems(4) show ?thesis by auto
  next
    case (Some w)
    then have "one_line w" using expand_one_line [OF n(4) assms(2,3)] by blast
    with n Cons.prems(2,3) have "framed (rep\<lparr>rep_headers := rep_headers rep @ [\<lparr>h_name = n, h_value = w\<rparr>]\<rparr>)"
      "headers_ok (rep\<lparr>rep_headers := rep_headers rep @ [\<lparr>h_name = n, h_value = w\<rparr>]\<rparr>)"
      by (simp_all add: framed_def header_values_def headers_ok_def header_ok_def)
    with Cons.IH rest nv Some Cons.prems(4) show ?thesis by simp
  qed
qed simp

text \<open>
  A header whose value is no string lets the server start, and then every request throws in its handler.
\<close>

lemma mistyped_header_throws:
  "build_return ''ok'' [[(n, Mistyped)]] = Inr h \<Longrightarrow> h req rep = Inl Json_error"
  by (auto simp: build_return_def andthen_Inr_iff return_handler_def last_item_def)

text \<open>A header whose value is a text around the two placeholders\<close>

lemma find_str_prefix_absent:
  assumes "CHR ''$'' \<notin> set a"
  shows "find_str (CHR ''$'' # n) (a @ (CHR ''$'' # n) @ b) = Some (length a)"
  using assms
proof (induction a)
  case (Cons c a)
  then show ?case by auto
qed simp

lemma expand_redirect:
  assumes "CHR ''$'' \<notin> set a" "CHR ''$'' \<notin> set mid" "CHR ''$'' \<notin> set host"
    and "get_header req ''host'' = host" "host \<noteq> []"
  shows "expand req (a @ ''$host'' @ mid @ ''$request_uri'' @ b) =
    Some (a @ takeWhile (\<lambda>c. c \<noteq> CHR '':'') host @ mid @ req_uri req @ b)"
proof -
  let ?h = "takeWhile (\<lambda>c. c \<noteq> CHR '':'') host"
  have "CHR ''$'' \<notin> set (a @ ?h @ mid)" using assms(1-3) by (auto dest: set_takeWhileD)
  then have "find_str ''$request_uri'' ((a @ ?h @ mid) @ ''$request_uri'' @ b) = Some (length (a @ ?h @ mid))"
    using find_str_prefix_absent [of "a @ ?h @ mid" "''request_uri''" b] by simp
  moreover have "find_str ''$host'' (a @ ''$host'' @ mid @ ''$request_uri'' @ b) = Some (length a)"
    using find_str_prefix_absent [OF assms(1), of "''host''" "mid @ ''$request_uri'' @ b"] by simp
  ultimately show ?thesis
    using assms(4,5) by (simp add: expand_def Let_def replace_at_def strip_port_eq)
qed


text \<open>What the handlers of the program promise of their replies to a parsed request\<close>

lemma route_reply_safe:
  "request_ok req \<Longrightarrow> \<forall>m. \<forall>e \<in> set (entries_of R m). entry_plain e \<Longrightarrow> route fsys R req rep = Inr r \<Longrightarrow>
     reply_safe req r"
  using route_safe [of fsys R req rep r] request_ok_uri_one_line by blast

lemma return_reply_safe:
  "section_ok entries \<Longrightarrow> request_ok req \<Longrightarrow> return_handler st entries req rep = Inr r \<Longrightarrow> framed r \<and> headers_ok r"
  using return_headers_ok [OF _ request_ok_uri_one_line request_ok_get_header_one_line
      framed_stock_reply headers_ok_stock_reply]
  by (simp add: return_handler_def)

text \<open>A host that is an IPv6 address is cut at its first colon.\<close>

lemma strip_port_ipv6: "strip_port ''[::1]:8080'' = ''[''"
  by code_simp

text \<open>
  The host is put in before \<^verbatim>\<open>$request_uri\<close> is looked for, so a client that asks for the host
  \<^verbatim>\<open>$request_uri\<close> has the URI put into the host, and the placeholder of the configuration is sent as it is.
\<close>

lemma host_placeholder:
  "expand (empty_request\<lparr>req_uri := ''/x'', req_headers := [\<lparr>h_name = ''Host'', h_value = ''$request_uri''\<rparr>]\<rparr>)
     ''https://$host$request_uri'' = Some ''https:///x$request_uri''"
  by code_simp


subsection \<open>Properties\<close>

text \<open>
  A header of a \<open>return\<close> section whose value has \<^verbatim>\<open>$host\<close> and then
  \<^verbatim>\<open>$request_uri\<close> in it, as in the configuration that comes with the program, is sent with the host
  that the client asked for, up to its first colon, and the URI of the request in their place.
\<close>

theorem return_redirects:
  assumes "CHR ''$'' \<notin> set a" "CHR ''$'' \<notin> set mid" "CHR ''$'' \<notin> set (get_header req ''host'')"
    and "get_header req ''host'' \<noteq> []"
    and "kvs \<noteq> []" "last kvs = (name, a @ ''$host'' @ mid @ ''$request_uri'' @ b)"
  shows "return_handler st [map (\<lambda>(k, v). (k, Typed v)) kvs] req rep = Inr ((stock_reply st)\<lparr>rep_headers := rep_headers (stock_reply st) @
    [\<lparr>h_name = name,
      h_value = a @ takeWhile (\<lambda>c. c \<noteq> CHR '':'') (get_header req ''host'') @ mid @ req_uri req @ b\<rparr>]\<rparr>)"
  using expand_redirect [OF assms(1-3) refl assms(4), of b] assms(5,6)
  by (simp add: return_handler_def last_item_typed)

theorem return_redirects_witness:
  "return_handler moved_permanently [[(''Location'', Typed ''https://$host:4000$request_uri'')]]
     (empty_request\<lparr>req_uri := ''/a'', req_headers := [\<lparr>h_name = ''Host'', h_value = ''x.org:80''\<rparr>]\<rparr>) (stock_reply ok) =
   Inr ((stock_reply moved_permanently)\<lparr>rep_headers := rep_headers (stock_reply moved_permanently) @
     [\<lparr>h_name = ''Location'', h_value = ''https://x.org:4000/a''\<rparr>]\<rparr>)"
proof -
  let ?req = "empty_request\<lparr>req_uri := ''/a'', req_headers := [\<lparr>h_name = ''Host'', h_value = ''x.org:80''\<rparr>]\<rparr>"
  have h: "get_header ?req ''host'' = ''x.org:80''" by code_simp
  show ?thesis
    using return_redirects [of "''https://''" "'':4000''" ?req "[(''Location'', ''https://$host:4000$request_uri'')]" "''Location''" "[]"
        moved_permanently "stock_reply ok", unfolded h]
    by simp
qed

text \<open>
  Whatever a client sends, the reply of a \<open>return\<close> section announces the length of
  its body, once, and no part of the request can add a header line to it, if the section itself is
  free of line breaks.
\<close>

theorem return_safe:
  assumes "section_ok entries" "request_ok req" "return_handler st entries req rep = Inr r"
  shows "framed r \<and> headers_ok r"
  by (rule return_reply_safe [OF assms])

theorem return_safe_witness:
  "framed ((stock_reply ok)\<lparr>rep_headers := rep_headers (stock_reply ok) @ [\<lparr>h_name = ''X'', h_value = ''y''\<rparr>]\<rparr>)"
proof -
  have "request_ok (request_of ''GET'' ''/'' 1 0 [])" by code_simp
  moreover have "section_ok [[(''X'', Typed ''y'')]]" by (simp add: section_ok_def last_item_def)
  moreover have "return_handler ok [[(''X'', Typed ''y'')]] (request_of ''GET'' ''/'' 1 0 []) (stock_reply ok) =
      Inr ((stock_reply ok)\<lparr>rep_headers := rep_headers (stock_reply ok) @ [\<lparr>h_name = ''X'', h_value = ''y''\<rparr>]\<rparr>)"
    by (simp add: return_handler_def last_item_def expand_def)
  ultimately show ?thesis using return_safe by blast
qed

text \<open>
  In the simple mode a GET request is answered by the directory that
  is served, for every path the router lets through.
\<close>

theorem simple_router_serves_root:
  assumes "std_sort srt" "url_decode (req_uri req) = (True, CHR ''/'' # p)" "path_ok (CHR ''/'' # p)"
    and "req_method req \<in> {''GET'', ''HEAD''}"
  shows "route fsys (simple_router srt root) req rep =
    andthen (serve_static fsys root ''/'' (CHR ''/'' # p) req rep) (\<lambda>(m, r). Inr r)"
proof -
  have "routed_method req = ''GET''" using assms(4) by (auto simp: routed_method_def)
  then show ?thesis
    by (simp add: route_find [OF assms(2,3)] simple_router_entries [OF assms(1)] takes.simps serve_entry.simps)
qed

theorem simple_router_serves_root_witness:
  "route (\<lambda>t p. Inr Missing) (simple_router insertion_sort ''/srv'') (request_of ''GET'' ''/a'' 1 0 []) (stock_reply ok) =
    andthen (serve_static (\<lambda>t p. Inr Missing) ''/srv'' ''/'' ''/a'' (request_of ''GET'' ''/a'' 1 0 []) (stock_reply ok)) (\<lambda>(m, r). Inr r)"
proof -
  have "url_decode (req_uri (request_of ''GET'' ''/a'' 1 0 [])) = (True, ''/a'')" by code_simp
  moreover have "path_ok ''/a''" by (simp add: path_ok_def sublist_Cons_right)
  ultimately show ?thesis
    by (intro simple_router_serves_root [OF entry_sort.std_sort_axioms]) (simp_all add: request_of_def)
qed

end
