(* ===== verification/Connection.thy ===== *)
theory Connection
  imports Request_Grammar Http_Reply
begin

section \<open>Connections and servers (\<open>src/lib/base_connection.hpp\<close> and the classes around it)\<close>

text \<open>
  The state machine of an HTTP server: \<^verbatim>\<open>base_connection\<close> with \<^verbatim>\<open>plain_connection\<close> and
  \<^verbatim>\<open>ssl_connection\<close>, \<^verbatim>\<open>connection_manager\<close>, \<^verbatim>\<open>request_handler\<close> and the accept loop of
  \<^verbatim>\<open>http_server\<close>. An asynchronous operation is recorded in the connection that started it
  (\<open>pending\<close>); its completion handler is an operation of the server, and a step of the relation
  \<open>step\<close> is one invocation of a handler by the \<^verbatim>\<open>io_context\<close>, which runs on one thread.

  What asio decides is in the event: the error code, the bytes that were read, how much was
  written. \<open>received\<close> and \<open>sent\<close> are the two directions of the byte stream of the socket.
\<close>

datatype error_code = success | operation_aborted | other_error

datatype operation = Handshake | Read | Write

record connection =
  socket_open :: bool
  conn_request :: http_request
  conn_parser :: parser_state
  conn_reply :: reply
  pending :: "operation option"
  received :: string
  sent :: string

definition empty_reply :: reply where
  "empty_reply = \<lparr>status = no_status, rep_headers = [], content = []\<rparr>"

definition new_connection :: connection where
  "new_connection = \<lparr>socket_open = True, conn_request = empty_request, conn_parser = new_parser,
     conn_reply = empty_reply, pending = None, received = [], sent = []\<rparr>"

text \<open>
  A server: connections are numbered as they are accepted, \<open>connections\<close> is the set of the
  connection manager, \<open>objects\<close> gives the connection objects. \<open>running\<close> tells that the server has
  not been destroyed, \<open>secure\<close> that it is an \<^verbatim>\<open>https_server\<close>.
\<close>

record server =
  running :: bool
  secure :: bool
  acceptor_open :: bool
  accepting :: bool
  connections :: "nat set"
  objects :: "nat \<rightharpoonup> connection"
  next_id :: nat

text \<open>
  The function of a \<^verbatim>\<open>request_handler\<close>; it may depend on the world at the time of the call (for the
  router, the file system), and it may throw. An empty \<^verbatim>\<open>std::function\<close> is \<open>None\<close>.
\<close>

type_synonym 'w service = "'w \<Rightarrow> http_request \<Rightarrow> reply \<Rightarrow> exn + reply"
type_synonym 'w request_handler = "'w service option"

definition set_service :: "'w service \<Rightarrow> 'w request_handler \<Rightarrow> 'w request_handler" where
  "set_service h rh = Some h"

definition handle_request :: "'w request_handler \<Rightarrow> 'w \<Rightarrow> http_request \<Rightarrow> reply \<Rightarrow> exn + reply" where
  "handle_request rh w req rep = (case rh of None \<Rightarrow> Inl Bad_function_call | Some h \<Rightarrow> h w req rep)"

definition update_object :: "nat \<Rightarrow> (connection \<Rightarrow> connection) \<Rightarrow> server \<Rightarrow> server" where
  "update_object i f sv = sv\<lparr>objects := (objects sv)(i := map_option f (objects sv i))\<rparr>"

definition do_handshake :: "nat \<Rightarrow> server \<Rightarrow> server" where
  "do_handshake i sv = update_object i (\<lambda>c. c\<lparr>pending := Some Handshake\<rparr>) sv"

definition do_read :: "nat \<Rightarrow> server \<Rightarrow> server" where
  "do_read i sv = update_object i (\<lambda>c. c\<lparr>pending := Some Read\<rparr>) sv"

definition do_write :: "nat \<Rightarrow> server \<Rightarrow> server" where
  "do_write i sv = update_object i (\<lambda>c. c\<lparr>pending := Some Write\<rparr>) sv"

text \<open>
  The interface of a connection: \<^verbatim>\<open>stop\<close>, which both kinds of connection share, and \<^verbatim>\<open>start\<close>, which each of
  them overrides. The kind of its connections is that of the server.
\<close>

definition conn_stop :: "connection \<Rightarrow> connection" where
  "conn_stop c = c\<lparr>socket_open := False\<rparr>"

definition plain_start :: "nat \<Rightarrow> server \<Rightarrow> server" where
  [simp]: "plain_start i sv = do_read i sv"

definition ssl_start :: "nat \<Rightarrow> server \<Rightarrow> server" where
  [simp]: "ssl_start i sv = do_handshake i sv"

definition conn_start :: "nat \<Rightarrow> server \<Rightarrow> server" where
  "conn_start i sv = (if secure sv then ssl_start i sv else plain_start i sv)"

definition manager_start :: "nat \<Rightarrow> server \<Rightarrow> server" where
  "manager_start i sv = conn_start i (sv\<lparr>connections := insert i (connections sv)\<rparr>)"

definition manager_stop :: "nat \<Rightarrow> server \<Rightarrow> server" where
  "manager_stop i sv = update_object i conn_stop (sv\<lparr>connections := connections sv - {i}\<rparr>)"

definition stop_all :: "server \<Rightarrow> server" where
  "stop_all sv =
     sv\<lparr>objects := (\<lambda>i. if i \<in> connections sv then map_option conn_stop (objects sv i) else objects sv i),
        connections := {}\<rparr>"

text \<open>The destructor of the manager\<close>

definition manager_destroy :: "server \<Rightarrow> server" where
  [simp]: "manager_destroy sv = stop_all sv"


subsection \<open>The completion handlers\<close>

text \<open>An operation whose handler is invoked is not pending any more.\<close>

definition completed :: "nat \<Rightarrow> server \<Rightarrow> server" where
  "completed i sv = update_object i (\<lambda>c. c\<lparr>pending := None\<rparr>) sv"

text \<open>
  \<^verbatim>\<open>create_connection\<close> is virtual: a plain server makes a plain connection, an \<^verbatim>\<open>https_server\<close> one with TLS.
  Both constructors only pass their arguments on to that of \<^verbatim>\<open>base_connection\<close>.
\<close>

definition add_object :: "connection \<Rightarrow> server \<Rightarrow> nat \<times> server" where
  [simp]: "add_object c sv =
     (next_id sv, sv\<lparr>objects := (objects sv)(next_id sv \<mapsto> c), next_id := Suc (next_id sv)\<rparr>)"

definition new_plain_connection :: connection where
  [simp]: "new_plain_connection = new_connection"

definition new_ssl_connection :: connection where
  [simp]: "new_ssl_connection = new_connection"

definition create_plain_connection :: "server \<Rightarrow> nat \<times> server" where
  [simp]: "create_plain_connection sv = add_object new_plain_connection sv"

definition create_ssl_connection :: "server \<Rightarrow> nat \<times> server" where
  [simp]: "create_ssl_connection sv = add_object new_ssl_connection sv"

definition create_connection :: "server \<Rightarrow> nat \<times> server" where
  "create_connection sv = (if secure sv then create_ssl_connection sv else create_plain_connection sv)"

definition do_accept :: "server \<Rightarrow> server" where
  "do_accept sv = sv\<lparr>accepting := True\<rparr>"

definition on_accept :: "error_code \<Rightarrow> server \<Rightarrow> server" where
  "on_accept ec sv =
     (let sv = sv\<lparr>accepting := False\<rparr> in
      if \<not> acceptor_open sv then sv
      else do_accept
        (if ec = success then (let (i, sv') = create_connection sv in manager_start i sv') else sv))"

definition on_handshake :: "nat \<Rightarrow> error_code \<Rightarrow> server \<Rightarrow> server" where
  "on_handshake i ec sv =
     (let sv = completed i sv in if ec = success then do_read i sv else manager_stop i sv)"

text \<open>
  The handler of \<^verbatim>\<open>async_read_some\<close>. \<open>None\<close> is the undefined behaviour of the parser; an exception
  leaves the handler, and \<^verbatim>\<open>io_context::run\<close>, with the state as it is.
\<close>

definition on_read :: "'w request_handler \<Rightarrow> 'w \<Rightarrow> nat \<Rightarrow> error_code \<Rightarrow> string \<Rightarrow> server \<Rightarrow>
    (exn option \<times> server) option" where
  "on_read rh w i ec bytes sv =
     (case objects sv i of
        None \<Rightarrow> Some (None, sv)
      | Some c \<Rightarrow>
          (let sv = completed i sv in
           if ec = success then
             (case parse (conn_parser c) (conn_request c) bytes of
                None \<Rightarrow> None
              | Some (result, rest, p, r) \<Rightarrow>
                  (let sv = update_object i (\<lambda>c. c\<lparr>conn_parser := p, conn_request := r,
                         received := received c @ bytes\<rparr>) sv in
                   if result = good then
                     (case handle_request rh w r (conn_reply c) of
                        Inl e \<Rightarrow> Some (Some e, sv)
                      | Inr rep \<Rightarrow>
                          Some (None, do_write i (update_object i (\<lambda>c. c\<lparr>conn_reply := rep\<rparr>) sv)))
                   else if result = bad then
                     Some (None, do_write i
                       (update_object i (\<lambda>c. c\<lparr>conn_reply := stock_reply bad_request\<rparr>) sv))
                   else Some (None, do_read i sv)))
           else if ec \<noteq> operation_aborted then Some (None, manager_stop i sv)
           else Some (None, sv)))"

text \<open>The handler of \<^verbatim>\<open>async_write\<close>, of which \<open>n\<close> bytes of the reply went out\<close>

definition on_write :: "nat \<Rightarrow> error_code \<Rightarrow> nat \<Rightarrow> server \<Rightarrow> server" where
  "on_write i ec n sv =
     (let sv = update_object i (\<lambda>c. c\<lparr>sent := take n (wire (conn_reply c))\<rparr>) (completed i sv) in
      if ec \<noteq> operation_aborted then manager_stop i sv else sv)"

text \<open>
  The end of a server: its destructor closes the acceptor, then its members are destroyed, the
  connection manager among them.
\<close>

definition close_acceptor :: "server \<Rightarrow> server" where
  [simp]: "close_acceptor sv = sv\<lparr>acceptor_open := False\<rparr>"

definition destroy :: "server \<Rightarrow> server" where
  "destroy sv = (manager_destroy (close_acceptor sv))\<lparr>running := False\<rparr>"

text \<open>A server that does not listen yet, and one that does\<close>

definition new_server :: "bool \<Rightarrow> server" where
  "new_server sec = \<lparr>running = True, secure = sec, acceptor_open = False, accepting = False,
     connections = {}, objects = Map.empty, next_id = 0\<rparr>"

definition listening :: "bool \<Rightarrow> server" where
  "listening sec = do_accept \<lparr>running = True, secure = sec, acceptor_open = True, accepting = False,
     connections = {}, objects = Map.empty, next_id = 0\<rparr>"

text \<open>
  \<^verbatim>\<open>http_server::listen\<close>. The network resolves an address and a port to the first of one or more
  endpoints, the only one that is used, or throws; the calls on the acceptor may throw.
\<close>

datatype acceptor_call =
    Open_for string
  | Reuse_address
  | Bind_to string
  | Listen

record network =
  net_resolve :: "string \<Rightarrow> string \<Rightarrow> exn + string \<times> string list"
  net_throws :: "acceptor_call \<Rightarrow> exn option"

definition listen :: "network \<Rightarrow> string \<Rightarrow> string \<Rightarrow> server \<Rightarrow> exn + server" where
  "listen net port address sv =
     andthen (net_resolve net address port) (\<lambda>(endpoint, others).
     andthen (run_calls (net_throws net) [Open_for endpoint, Reuse_address, Bind_to endpoint, Listen]) (\<lambda>_.
       Inr (do_accept (sv\<lparr>acceptor_open := True\<rparr>))))"

lemma listen_Inr:
  "listen net port address (new_server sec) = Inr sv \<longleftrightarrow> sv = listening sec \<and>
     (\<exists>endpoint others. net_resolve net address port = Inr (endpoint, others) \<and>
        (\<forall>c \<in> {Open_for endpoint, Reuse_address, Bind_to endpoint, Listen}. net_throws net c = None))"
proof -
  have l: "do_accept (new_server sec\<lparr>acceptor_open := True\<rparr>) = listening sec"
    by (simp add: new_server_def listening_def)
  show ?thesis
    by (auto simp: listen_def andthen_Inr_iff run_calls_Inr case_prod_beta l simp del: run_calls.simps)
qed


subsection \<open>Steps\<close>

definition has_pending :: "server \<Rightarrow> nat \<Rightarrow> operation \<Rightarrow> bool" where
  "has_pending sv i opn \<longleftrightarrow> running sv \<and> (\<exists>c. objects sv i = Some c \<and> pending c = Some opn)"

datatype 'w event =
    Accepted error_code
  | Handshaken nat error_code
  | Received nat error_code string 'w "exn option"
  | Written nat error_code nat
  | Destroyed

inductive step :: "'w request_handler \<Rightarrow> server \<Rightarrow> 'w event \<Rightarrow> server \<Rightarrow> bool" for rh where
  step_accept: "running sv \<Longrightarrow> accepting sv \<Longrightarrow> step rh sv (Accepted ec) (on_accept ec sv)"
| step_handshake: "has_pending sv i Handshake \<Longrightarrow> step rh sv (Handshaken i ec) (on_handshake i ec sv)"
| step_read: "has_pending sv i Read \<Longrightarrow> length bytes \<le> 8192 \<Longrightarrow>
    on_read rh w i ec bytes sv = Some (x, sv') \<Longrightarrow> step rh sv (Received i ec bytes w x) sv'"
| step_write: "has_pending sv i Write \<Longrightarrow>
    (ec = success \<longrightarrow> (\<forall>c. objects sv i = Some c \<longrightarrow> n = length (wire (conn_reply c)))) \<Longrightarrow>
    step rh sv (Written i ec n) (on_write i ec n sv)"
| step_destroy: "running sv \<Longrightarrow> step rh sv Destroyed (destroy sv)"

inductive run :: "'w request_handler \<Rightarrow> server \<Rightarrow> 'w event list \<Rightarrow> server \<Rightarrow> bool" for rh where
  run_Nil: "run rh sv [] sv"
| run_snoc: "run rh sv evs sv1 \<Longrightarrow> step rh sv1 e sv2 \<Longrightarrow> run rh sv (evs @ [e]) sv2"


subsection \<open>What a handler does to the connections\<close>

lemma update_object_simps [simp]:
  "running (update_object i f sv) = running sv"
  "connections (update_object i f sv) = connections sv"
  "next_id (update_object i f sv) = next_id sv"
  "objects (update_object i f sv) j = (if j = i then map_option f (objects sv i) else objects sv j)"
  "update_object i f (update_object i g sv) = update_object i (\<lambda>c. f (g c)) sv"
  "update_object i f (sv\<lparr>connections := cs\<rparr>) = (update_object i f sv)\<lparr>connections := cs\<rparr>"
  by (simp_all add: update_object_def option.map_comp comp_def)

text \<open>The connection after a read that brought \<open>bytes\<close>\<close>

definition after_read :: "operation option \<Rightarrow> reply \<Rightarrow> parser_state \<Rightarrow> http_request \<Rightarrow> string \<Rightarrow>
    connection \<Rightarrow> connection" where
  "after_read opn rep p r bytes c =
     c\<lparr>conn_parser := p, conn_request := r, received := received c @ bytes, conn_reply := rep, pending := opn\<rparr>"

lemmas completion_defs = completed_def do_read_def do_write_def do_handshake_def manager_stop_def
  conn_stop_def Let_def

lemma on_read_cases:
  assumes "on_read rh w i ec bytes sv = Some (x, sv')" and c: "objects sv i = Some c"
  obtains (stopped) "ec = other_error" "x = None" "sv' = manager_stop i (completed i sv)"
  | (aborted) "ec = operation_aborted" "x = None" "sv' = completed i sv"
  | (more_input) rest p r where "ec = success" "x = None"
      "parse (conn_parser c) (conn_request c) bytes = Some (indeterminate, rest, p, r)"
      "sv' = update_object i (after_read (Some Read) (conn_reply c) p r bytes) sv"
  | (replied) rest p r rep where "ec = success" "x = None"
      "parse (conn_parser c) (conn_request c) bytes = Some (good, rest, p, r)"
      "handle_request rh w r (conn_reply c) = Inr rep"
      "sv' = update_object i (after_read (Some Write) rep p r bytes) sv"
  | (raised) rest p r e where "ec = success" "x = Some e"
      "parse (conn_parser c) (conn_request c) bytes = Some (good, rest, p, r)"
      "handle_request rh w r (conn_reply c) = Inl e"
      "sv' = update_object i (after_read None (conn_reply c) p r bytes) sv"
  | (rejected) rest p r where "ec = success" "x = None"
      "parse (conn_parser c) (conn_request c) bytes = Some (bad, rest, p, r)"
      "sv' = update_object i (after_read (Some Write) (stock_reply bad_request) p r bytes) sv"
proof (cases ec)
  case success
  have upd: "update_object i f sv = update_object i g sv" if "f c = g c" for f g
    using c that by (simp add: update_object_def)
  from assms success obtain result rest p r where
    parse: "parse (conn_parser c) (conn_request c) bytes = Some (result, rest, p, r)"
    by (auto simp: on_read_def Let_def split: option.splits)
  note run = assms(1) [unfolded on_read_def c Let_def, simplified, unfolded success parse, simplified]
  show thesis
  proof (cases result)
    case bad
    have "sv' = update_object i (after_read (Some Write) (stock_reply bad_request) p r bytes) sv"
      using run bad by (auto simp: completion_defs intro!: upd) (simp add: after_read_def)
    then show thesis
      using run parse success bad rejected by simp
  next
    case indeterminate
    have "sv' = update_object i (after_read (Some Read) (conn_reply c) p r bytes) sv"
      using run indeterminate by (auto simp: completion_defs intro!: upd) (simp add: after_read_def)
    then show thesis
      using run parse success indeterminate more_input by simp
  next
    case good
    show thesis
    proof (cases "handle_request rh w r (conn_reply c)")
      case (Inl e)
      have "sv' = update_object i (after_read None (conn_reply c) p r bytes) sv"
        using run good Inl by (auto simp: completion_defs intro!: upd) (simp add: after_read_def)
      then show thesis
        using run parse success good Inl raised by auto
    next
      case (Inr rep)
      have "sv' = update_object i (after_read (Some Write) rep p r bytes) sv"
        using run good Inr by (auto simp: completion_defs intro!: upd) (simp add: after_read_def)
      then show thesis
        using run parse success good Inr replied by simp
    qed
  qed
qed (use assms stopped aborted in \<open>auto simp: on_read_def Let_def\<close>)

lemma on_read_undefined:
  "objects sv i = Some c \<Longrightarrow> on_read rh w i ec bytes sv = None \<longleftrightarrow>
     ec = success \<and> parse (conn_parser c) (conn_request c) bytes = None"
  by (auto simp: on_read_def Let_def split: option.splits sum.splits)

end
