(* ===== verification/Connection_Invariant.thy ===== *)
theory Connection_Invariant
  imports Connection
begin

section \<open>What holds in every state of a server\<close>

text \<open>
  The invariant of the connections, that they do not disturb each other, what exceptions do to them,
  the bytes that went in and out, and the contract of a service that the theorems about a server rest on.
\<close>

subsection \<open>Invariants\<close>

text \<open>
  A connection that waits for input has parsed all of what came, and nothing was sent. Its reply is
  that of the request, or the rejection, and what is sent of it is a part of its serialisation.
\<close>

definition awaiting :: "connection \<Rightarrow> bool" where
  "awaiting c \<longleftrightarrow>
     parse method_start empty_request (received c) =
       Some (indeterminate, [], conn_parser c, conn_request c) \<and>
     sent c = [] \<and> conn_reply c = empty_reply"

definition answers :: "'w request_handler \<Rightarrow> string \<Rightarrow> reply \<Rightarrow> bool" where
  "answers rh inp rep \<longleftrightarrow>
     (\<exists>rest p r. parse method_start empty_request inp = Some (bad, rest, p, r)) \<and>
       rep = stock_reply bad_request \<or>
     (\<exists>rest p r w. parse method_start empty_request inp = Some (good, rest, p, r) \<and>
       handle_request rh w r empty_reply = Inr rep)"

definition raised :: "'w request_handler \<Rightarrow> connection \<Rightarrow> bool" where
  "raised rh c \<longleftrightarrow> sent c = [] \<and>
     (\<exists>rest p r w e. parse method_start empty_request (received c) = Some (good, rest, p, r) \<and>
       handle_request rh w r empty_reply = Inl e)"

definition conn_inv :: "'w request_handler \<Rightarrow> connection \<Rightarrow> bool" where
  "conn_inv rh c \<longleftrightarrow>
     (if pending c = Some Write then answers rh (received c) (conn_reply c) \<and> sent c = []
      else if pending c = None
      then awaiting c \<or> raised rh c \<or>
        answers rh (received c) (conn_reply c) \<and> prefix (sent c) (wire (conn_reply c))
      else awaiting c)"

text \<open>The managed connections are those whose socket is open, and only they have an operation.\<close>

definition server_inv :: "'w request_handler \<Rightarrow> server \<Rightarrow> bool" where
  "server_inv rh sv \<longleftrightarrow>
     (\<forall>i c. objects sv i = Some c \<longrightarrow> i < next_id sv \<and> conn_inv rh c \<and>
        (socket_open c \<longleftrightarrow> i \<in> connections sv) \<and>
        (running sv \<and> pending c \<noteq> None \<longrightarrow> i \<in> connections sv)) \<and>
     connections sv \<subseteq> dom (objects sv)"

lemma awaiting_new: "awaiting (new_connection\<lparr>pending := opn\<rparr>)"
  by (simp add: awaiting_def new_connection_def)

lemma awaiting_read:
  assumes "awaiting c" "parse (conn_parser c) (conn_request c) bytes = Some (v, rest, p, r)"
  shows "parse method_start empty_request (received c @ bytes) = Some (v, rest, p, r)"
  using assms by (simp add: awaiting_def parse_append)

lemma conn_inv_after_read:
  assumes "conn_inv rh c" "pending c = Some Read"
    and p: "parse (conn_parser c) (conn_request c) bytes = Some (v, rest, p, r)"
  shows "v = indeterminate \<Longrightarrow> conn_inv rh (after_read (Some Read) (conn_reply c) p r bytes c)"
    and "v = good \<Longrightarrow> handle_request rh w r (conn_reply c) = Inr rep \<Longrightarrow>
      conn_inv rh (after_read (Some Write) rep p r bytes c)"
    and "v = good \<Longrightarrow> handle_request rh w r (conn_reply c) = Inl e \<Longrightarrow>
      conn_inv rh (after_read None (conn_reply c) p r bytes c)"
    and "v = bad \<Longrightarrow> conn_inv rh (after_read (Some Write) (stock_reply bad_request) p r bytes c)"
proof -
  have aw: "awaiting c" using assms(1,2) by (simp add: conn_inv_def)
  note all = awaiting_read [OF aw p]
  have e: "conn_reply c = empty_reply" "sent c = []" using aw by (simp_all add: awaiting_def)
  show "v = indeterminate \<Longrightarrow> conn_inv rh (after_read (Some Read) (conn_reply c) p r bytes c)"
    using all e parse_indeterminate [of method_start empty_request "received c @ bytes" rest]
    by (auto simp: conn_inv_def awaiting_def after_read_def)
  show "v = good \<Longrightarrow> handle_request rh w r (conn_reply c) = Inr rep \<Longrightarrow>
      conn_inv rh (after_read (Some Write) rep p r bytes c)"
    using all e by (auto simp: conn_inv_def answers_def after_read_def)
  show "v = good \<Longrightarrow> handle_request rh w r (conn_reply c) = Inl e \<Longrightarrow>
      conn_inv rh (after_read None (conn_reply c) p r bytes c)"
    using all e by (auto simp: conn_inv_def raised_def after_read_def)
  show "v = bad \<Longrightarrow> conn_inv rh (after_read (Some Write) (stock_reply bad_request) p r bytes c)"
    using all e by (auto simp: conn_inv_def answers_def after_read_def)
qed

text \<open>Changing one connection\<close>

lemma conn_inv_stop [simp]: "conn_inv rh (conn_stop c) = conn_inv rh c"
  by (simp add: conn_inv_def awaiting_def raised_def conn_stop_def)

lemma conn_stop_fields [simp]:
  "pending (conn_stop c) = pending c" "\<not> socket_open (conn_stop c)" "sent (conn_stop c) = sent c"
  by (simp_all add: conn_stop_def)

lemma server_inv_object:
  assumes "server_inv rh sv" "objects sv i = Some c"
  shows "i < next_id sv" "conn_inv rh c" "socket_open c \<longleftrightarrow> i \<in> connections sv"
    "running sv \<Longrightarrow> pending c \<noteq> None \<Longrightarrow> i \<in> connections sv"
  using assms unfolding server_inv_def by blast+

lemma server_inv_update:
  assumes inv: "server_inv rh sv" and c: "objects sv i = Some c"
    and f: "conn_inv rh (f c)" "socket_open (f c) = socket_open c" "pending c \<noteq> None"
  shows "server_inv rh (update_object i f sv)"
  using inv f server_inv_object [OF inv c] c unfolding server_inv_def by (auto simp: dom_def)

lemma server_inv_stop:
  assumes inv: "server_inv rh sv" and c: "objects sv i = Some c"
    and f: "conn_inv rh (f c)" "pending (f c) = None"
  shows "server_inv rh (manager_stop i (update_object i f sv))"
proof -
  have "manager_stop i (update_object i f sv) =
      update_object i (\<lambda>c. conn_stop (f c)) sv\<lparr>connections := connections sv - {i}\<rparr>"
    by (simp add: manager_stop_def)
  moreover have "server_inv rh (update_object i (\<lambda>c. conn_stop (f c)) sv\<lparr>connections := connections sv - {i}\<rparr>)"
    using inv f server_inv_object [OF inv c] c unfolding server_inv_def
    by (auto simp: dom_def conn_inv_stop)
  ultimately show ?thesis by simp
qed

lemma conn_inv_idle: "conn_inv rh c \<Longrightarrow> pending c \<noteq> Some Write \<Longrightarrow> conn_inv rh (c\<lparr>pending := None\<rparr>)"
  by (auto simp: conn_inv_def awaiting_def raised_def split: if_splits)

lemma conn_inv_written:
  "conn_inv rh c \<Longrightarrow> pending c = Some Write \<Longrightarrow>
     conn_inv rh (c\<lparr>pending := None, sent := take n (wire (conn_reply c))\<rparr>)"
  by (simp add: conn_inv_def take_is_prefix)

lemma server_inv_on_accept:
  assumes "server_inv rh sv"
  shows "server_inv rh (on_accept ec sv)"
proof -
  have new: "conn_inv rh (new_connection\<lparr>pending := Some opn\<rparr>)" if "opn \<noteq> Write" for opn
    using that awaiting_new by (simp add: conn_inv_def)
  have open_new: "socket_open (new_connection\<lparr>pending := opn\<rparr>)" for opn
    by (simp add: new_connection_def)
  have fresh: "next_id sv \<notin> connections sv" "objects sv (next_id sv) = None"
    using server_inv_object(1) [OF assms, of "next_id sv"] assms
    by (auto simp: server_inv_def dom_def) (metis less_irrefl option.exhaust)+
  show ?thesis
    using assms new [of Handshake] new [of Read] open_new fresh unfolding server_inv_def
    by (auto simp: on_accept_def do_accept_def Let_def create_connection_def manager_start_def
        conn_start_def do_handshake_def do_read_def update_object_def dest: less_SucI split: if_splits)
qed

lemma server_inv_on_handshake:
  assumes inv: "server_inv rh sv" and "has_pending sv i Handshake"
  shows "server_inv rh (on_handshake i ec sv)"
proof -
  obtain c where c: "objects sv i = Some c" "pending c = Some Handshake"
    using assms(2) by (auto simp: has_pending_def)
  with inv have ci: "conn_inv rh c" by (simp add: server_inv_object)
  show ?thesis
  proof (cases "ec = success")
    case True
    have "conn_inv rh (c\<lparr>pending := Some Read\<rparr>)"
      using ci c(2) by (simp add: conn_inv_def awaiting_def)
    then have "server_inv rh (update_object i (\<lambda>c. c\<lparr>pending := Some Read\<rparr>) sv)"
      using c by (intro server_inv_update [OF inv c(1)]) simp_all
    with True show ?thesis
      by (simp add: on_handshake_def completed_def do_read_def Let_def)
  next
    case False
    then show ?thesis
      using server_inv_stop [OF inv c(1)] conn_inv_idle [OF ci] c
      by (simp add: on_handshake_def completed_def Let_def)
  qed
qed

lemma server_inv_on_read:
  assumes inv: "server_inv rh sv" and "has_pending sv i Read"
    and r: "on_read rh w i ec bytes sv = Some (x, sv')"
  shows "server_inv rh sv'"
proof -
  obtain c where c: "objects sv i = Some c" "pending c = Some Read"
    using assms(2) by (auto simp: has_pending_def)
  with inv have ci: "conn_inv rh c" by (simp add: server_inv_object)
  have upd: "server_inv rh (update_object i (after_read opn rep p r bytes) sv)"
    if "conn_inv rh (after_read opn rep p r bytes c)" for opn rep p r
    using that c by (intro server_inv_update [OF inv c(1)]) (simp_all add: after_read_def)
  from r c(1) show ?thesis
  proof (cases rule: on_read_cases)
    case stopped
    then show ?thesis
      using server_inv_stop [OF inv c(1)] conn_inv_idle [OF ci] c by (simp add: completed_def)
  next
    case aborted
    then show ?thesis
      using conn_inv_idle [OF ci] c by (simp add: completed_def server_inv_update [OF inv c(1)])
  next
    case (more_input rest p r)
    then show ?thesis
      using conn_inv_after_read(1) [OF ci c(2) more_input(3)] by (simp add: upd)
  next
    case (replied rest p r rep)
    then show ?thesis
      using conn_inv_after_read(2) [OF ci c(2) replied(3)] by (simp add: upd)
  next
    case (raised rest p r e)
    then show ?thesis
      using conn_inv_after_read(3) [OF ci c(2) raised(3)] by (simp add: upd)
  next
    case (rejected rest p r)
    then show ?thesis
      using conn_inv_after_read(4) [OF ci c(2) rejected(3)] by (simp add: upd)
  qed
qed

lemma server_inv_on_write:
  assumes inv: "server_inv rh sv" and "has_pending sv i Write"
  shows "server_inv rh (on_write i ec n sv)"
proof -
  obtain c where c: "objects sv i = Some c" "pending c = Some Write"
    using assms(2) by (auto simp: has_pending_def)
  with inv have ci: "conn_inv rh c" by (simp add: server_inv_object)
  from conn_inv_written [OF this c(2)] c show ?thesis
    using server_inv_stop [OF inv c(1)]
    by (simp add: on_write_def completed_def Let_def server_inv_update [OF inv c(1)])
qed

lemma server_inv_destroy: "server_inv rh sv \<Longrightarrow> server_inv rh (destroy sv)"
  unfolding server_inv_def destroy_def manager_destroy_def close_acceptor_def stop_all_def
  by (auto simp: dom_def split: if_splits)

lemma step_inv: "step rh sv e sv' \<Longrightarrow> server_inv rh sv \<Longrightarrow> server_inv rh sv'"
  by (induction rule: step.induct)
    (simp_all add: server_inv_on_accept server_inv_on_handshake server_inv_on_read
      server_inv_on_write server_inv_destroy)

lemma listening_inv: "server_inv rh (listening sec)"
  by (simp add: server_inv_def listening_def do_accept_def)

lemma run_inv: "run rh sv evs sv' \<Longrightarrow> server_inv rh sv \<Longrightarrow> server_inv rh sv'"
  by (induction rule: run.induct) (auto dest: step_inv)


subsection \<open>Connections do not disturb each other\<close>

fun event_conn :: "'w event \<Rightarrow> nat option" where
  "event_conn (Accepted ec) = None"
| "event_conn (Handshaken i ec) = Some i"
| "event_conn (Received i ec bytes w x) = Some i"
| "event_conn (Written i ec n) = Some i"
| "event_conn Destroyed = None"

lemma on_read_frame:
  assumes "on_read rh w i ec bytes sv = Some (x, sv')" "has_pending sv i Read" "j \<noteq> i"
  shows "objects sv' j = objects sv j" "j \<in> connections sv' \<longleftrightarrow> j \<in> connections sv" "running sv' = running sv"
proof -
  obtain c where "objects sv i = Some c" using assms(2) by (auto simp: has_pending_def)
  with assms(1) have "objects sv' j = objects sv j \<and> (j \<in> connections sv' \<longleftrightarrow> j \<in> connections sv) \<and>
      running sv' = running sv"
    by (rule on_read_cases) (use assms(3) in \<open>simp_all add: completion_defs\<close>)
  then show "objects sv' j = objects sv j" "j \<in> connections sv' \<longleftrightarrow> j \<in> connections sv"
    "running sv' = running sv" by blast+
qed

lemma step_running:
  assumes "step rh sv e sv'" "e \<noteq> Destroyed"
  shows "running sv \<and> running sv'"
  using assms
proof (induction rule: step.induct)
  case (step_read sv i bytes w ec x sv')
  then have "running sv" by (simp add: has_pending_def)
  with on_read_frame(3) [OF step_read(3,1), of "Suc i"] show ?case by simp
qed (auto simp: has_pending_def on_accept_def on_handshake_def on_write_def create_connection_def
    manager_start_def conn_start_def do_accept_def completion_defs)

lemma step_frame:
  assumes st: "step rh sv e sv'" and inv: "server_inv rh sv" and c: "objects sv j = Some c"
    and e: "event_conn e \<noteq> Some j" "e \<noteq> Destroyed"
  shows "objects sv' j = Some c" "j \<in> connections sv' \<longleftrightarrow> j \<in> connections sv"
proof -
  have "j \<noteq> next_id sv" using server_inv_object(1) [OF inv c] by simp
  with st c e have "objects sv' j = Some c \<and> (j \<in> connections sv' \<longleftrightarrow> j \<in> connections sv)"
  proof (induction rule: step.induct)
    case (step_read sv i bytes w ec x sv')
    then show ?case using on_read_frame [of rh w i ec bytes sv x sv' j] by auto
  qed (auto simp: on_accept_def on_handshake_def on_write_def create_connection_def manager_start_def
      conn_start_def do_accept_def completion_defs)
  then show "objects sv' j = Some c" "j \<in> connections sv' \<longleftrightarrow> j \<in> connections sv" by blast+
qed

text \<open>A connection without an operation is left alone: no handler of it will be invoked.\<close>

lemma step_idle:
  assumes "step rh sv e sv'" "server_inv rh sv" "objects sv j = Some c" "pending c = None" "e \<noteq> Destroyed"
  shows "objects sv' j = Some c" "j \<in> connections sv' \<longleftrightarrow> j \<in> connections sv"
proof -
  have "event_conn e \<noteq> Some j"
    using assms(1,3,4) by (auto simp: has_pending_def elim!: step.cases)
  from step_frame [OF assms(1-3) this assms(5)]
  show "objects sv' j = Some c" "j \<in> connections sv' \<longleftrightarrow> j \<in> connections sv" .
qed

lemma run_idle:
  "run rh sv evs sv' \<Longrightarrow> server_inv rh sv \<Longrightarrow> objects sv j = Some c \<Longrightarrow> pending c = None \<Longrightarrow>
     Destroyed \<notin> set evs \<Longrightarrow> objects sv' j = Some c \<and> (j \<in> connections sv' \<longleftrightarrow> j \<in> connections sv)"
proof (induction rule: run.induct)
  case (run_snoc sv evs sv1 e sv2)
  then have "objects sv1 j = Some c" "j \<in> connections sv1 \<longleftrightarrow> j \<in> connections sv" by simp_all
  with run_snoc step_idle [OF run_snoc.hyps(2) run_inv [OF run_snoc.hyps(1) run_snoc.prems(1)]]
  show ?case by auto
qed simp


subsection \<open>Exceptions\<close>

text \<open>The events that leave a managed connection without an operation\<close>

fun abandons :: "nat \<Rightarrow> 'w event \<Rightarrow> bool" where
  "abandons j (Received i ec bytes w x) = (i = j \<and> (x \<noteq> None \<or> ec = operation_aborted))"
| "abandons j (Written i ec n) = (i = j \<and> ec = operation_aborted)"
| "abandons j _ = False"

definition busy :: "server \<Rightarrow> nat \<Rightarrow> bool" where
  "busy sv j \<longleftrightarrow> (\<exists>c. objects sv j = Some c \<and> pending c \<noteq> None)"

lemma on_read_busy:
  assumes "on_read rh w i ec bytes sv = Some (x, sv')" "has_pending sv i Read"
    "\<not> abandons i (Received i ec bytes w x)" "i \<in> connections sv'"
  shows "busy sv' i"
proof -
  obtain c where c: "objects sv i = Some c" using assms(2) by (auto simp: has_pending_def)
  with assms(1) show ?thesis
    by (rule on_read_cases)
      (use assms(3,4) c in \<open>simp_all add: busy_def after_read_def completion_defs\<close>)
qed

lemma step_busy:
  assumes st: "step rh sv e sv'" and inv: "server_inv rh sv"
    and busy: "\<forall>j \<in> connections sv. busy sv j \<or> j \<in> J" and e: "e \<noteq> Destroyed"
  shows "\<forall>j \<in> connections sv'. busy sv' j \<or> j \<in> J \<or> abandons j e"
proof
  fix j assume j: "j \<in> connections sv'"
  show "busy sv' j \<or> j \<in> J \<or> abandons j e"
  proof (cases "j \<in> connections sv \<and> event_conn e \<noteq> Some j")
    case True
    with inv obtain c where c: "objects sv j = Some c" by (auto simp: server_inv_def dom_def)
    with step_frame [OF st inv c _ e] True have "objects sv' j = Some c" by blast
    with busy True c show ?thesis by (auto simp: busy_def)
  next
    case False
    from st j False e show ?thesis
    proof (induction rule: step.induct)
      case (step_accept sv ec)
      then show ?case
        by (auto simp: busy_def on_accept_def create_connection_def manager_start_def conn_start_def
            do_accept_def completion_defs split: if_splits)
    next
      case (step_handshake sv i ec)
      then show ?case
        by (auto simp: busy_def on_handshake_def has_pending_def completion_defs split: if_splits)
    next
      case (step_read sv i bytes w ec x sv')
      then have "j = i" using on_read_frame [of rh w i ec bytes sv x sv' j] by auto
      with step_read on_read_busy [of rh w i ec bytes sv x sv'] show ?case
        by (cases "abandons i (Received i ec bytes w x)") simp_all
    next
      case (step_write sv i ec n)
      then show ?case
        by (auto simp: busy_def on_write_def has_pending_def completion_defs split: if_splits)
    qed simp
  qed
qed

lemma run_busy:
  "run rh sv evs sv' \<Longrightarrow> server_inv rh sv \<Longrightarrow> \<forall>j \<in> connections sv. busy sv j \<Longrightarrow> Destroyed \<notin> set evs \<Longrightarrow>
     \<forall>j \<in> connections sv'. busy sv' j \<or> (\<exists>e \<in> set evs. abandons j e)"
proof (induction rule: run.induct)
  case (run_snoc sv evs sv1 e sv2)
  then have "\<forall>j \<in> connections sv1. busy sv1 j \<or> j \<in> {j. \<exists>e \<in> set evs. abandons j e}" by auto
  from step_busy [OF run_snoc.hyps(2) run_inv [OF run_snoc.hyps(1) run_snoc.prems(1)] this] run_snoc.prems
  show ?case by auto
qed simp


subsection \<open>The bytes of a connection\<close>

fun event_bytes :: "nat \<Rightarrow> 'w event \<Rightarrow> string" where
  "event_bytes i (Received j ec bytes w x) = (if j = i \<and> ec = success then bytes else [])"
| "event_bytes i _ = []"

definition bytes_in :: "nat \<Rightarrow> 'w event list \<Rightarrow> string" where
  "bytes_in i evs = concat (map (event_bytes i) evs)"

definition received_by :: "server \<Rightarrow> nat \<Rightarrow> string" where
  "received_by sv i = (case objects sv i of Some c \<Rightarrow> received c | None \<Rightarrow> [])"

lemma step_received:
  assumes st: "step rh sv e sv'" and inv: "server_inv rh sv"
  shows "received_by sv' j = received_by sv j @ event_bytes j e"
  using st inv
proof (induction rule: step.induct)
  case (step_accept sv ec)
  then have "objects sv (next_id sv) = None"
    using server_inv_object(1) by (cases "objects sv (next_id sv)") blast+
  then show ?case
    by (auto simp: received_by_def on_accept_def create_connection_def manager_start_def conn_start_def
        do_accept_def new_connection_def completion_defs)
next
  case (step_read sv i bytes w ec x sv')
  then obtain c where c: "objects sv i = Some c" by (auto simp: has_pending_def)
  with step_read(3) show ?case
    by (rule on_read_cases) (use c in \<open>auto simp: received_by_def after_read_def completion_defs\<close>)
next
  case (step_destroy sv)
  then show ?case
    by (auto simp: received_by_def destroy_def stop_all_def conn_stop_def split: option.split)
qed (auto simp: received_by_def on_handshake_def on_write_def has_pending_def completion_defs)

lemma run_received:
  "run rh sv evs sv' \<Longrightarrow> server_inv rh sv \<Longrightarrow> received_by sv' j = received_by sv j @ bytes_in j evs"
proof (induction rule: run.induct)
  case (run_snoc sv evs sv1 e sv2)
  then show ?case
    using step_received [OF run_snoc.hyps(2) run_inv [OF run_snoc.hyps(1) run_snoc.prems]]
    by (simp add: bytes_in_def)
qed (simp add: bytes_in_def)

lemma run_received_bytes:
  assumes "run rh (listening sec) evs sv" "objects sv i = Some c"
  shows "received c = bytes_in i evs"
  using run_received [OF assms(1) listening_inv, of i] assms(2)
  by (simp add: received_by_def listening_def do_accept_def)

text \<open>What a client reads is part of one answer to what it wrote, however the bytes were cut.\<close>

lemma run_sent:
  assumes "run rh (listening sec) evs sv" "objects sv i = Some c" "sent c \<noteq> []"
  shows "\<exists>rep. answers rh (bytes_in i evs) rep \<and> prefix (sent c) (wire rep)"
proof -
  have "received c = bytes_in i evs" by (rule run_received_bytes [OF assms(1,2)])
  moreover have "conn_inv rh c"
    using server_inv_object(2) [OF run_inv [OF assms(1) listening_inv] assms(2)] .
  ultimately show ?thesis
    using assms(3) by (auto simp: conn_inv_def awaiting_def raised_def split: if_splits)
qed

lemma written_answer:
  assumes run: "run rh (listening sec) evs sv" and st: "step rh sv (Written i success n) sv'"
  shows "i \<notin> connections sv' \<and> (\<exists>c rep. objects sv' i = Some c \<and> sent c = wire rep \<and>
    \<not> socket_open c \<and> answers rh (bytes_in i evs) rep)"
proof -
  from st obtain c where c: "objects sv i = Some c" "pending c = Some Write"
    and n: "n = length (wire (conn_reply c))" and sv': "sv' = on_write i success n sv"
    by (auto simp: has_pending_def elim!: step.cases)
  have "received c = bytes_in i evs" by (rule run_received_bytes [OF run c(1)])
  moreover have "answers rh (received c) (conn_reply c)"
    using server_inv_object(2) [OF run_inv [OF run listening_inv] c(1)] c(2) by (simp add: conn_inv_def)
  ultimately show ?thesis
    using c n by (auto simp: sv' on_write_def completion_defs)
qed

text \<open>
  The contract of a service: what it promises of its reply to a well-formed request holds of every
  reply that a client of the server gets, which is such a reply or the 400 page.
\<close>

locale promising_service =
  fixes rh :: "'w request_handler"
    and promise :: "http_request \<Rightarrow> reply \<Rightarrow> bool"
  assumes keeps_promise: "request_ok r \<Longrightarrow> handle_request rh w r empty_reply = Inr rep \<Longrightarrow> promise r rep"
begin

lemma answer_promised:
  "answers rh inp rep \<Longrightarrow> rep = stock_reply bad_request \<or>
     (\<exists>rest s r. parse method_start empty_request inp = Some (good, rest, s, r) \<and> promise r rep)"
  using keeps_promise parsed_request_ok by (auto simp: answers_def)

lemma written_promised:
  assumes "run rh (listening sec) evs sv" "step rh sv (Written i success n) sv'"
  shows "\<exists>c rep. objects sv' i = Some c \<and> sent c = wire rep \<and> (rep = stock_reply bad_request \<or>
    (\<exists>rest s r. parse method_start empty_request (bytes_in i evs) = Some (good, rest, s, r) \<and> promise r rep))"
  using written_answer [OF assms] answer_promised by meson

end

end
