(* ===== verification/Connection_Runs.thy ===== *)
theory Connection_Runs
  imports Connection_Invariant
begin

section \<open>Runs of a server\<close>

text \<open>
  How long a connection lasts, what a client can make a server do, a server at work on small examples,
  and the properties of connections.
\<close>

subsection \<open>The length of a connection\<close>

text \<open>
  A read without error brings at least one byte. Then every event of a connection uses up a byte or
  moves it on: from the handshake to reading, to writing, to the end.
\<close>

fun brings_bytes :: "'w event \<Rightarrow> bool" where
  "brings_bytes (Received i ec bytes w x) = (ec = success \<longrightarrow> bytes \<noteq> [])"
| "brings_bytes _ = True"

fun is_write :: "'w event \<Rightarrow> bool" where
  "is_write (Written i ec n) = True"
| "is_write _ = False"

definition events_at :: "nat \<Rightarrow> 'w event list \<Rightarrow> 'w event list" where
  "events_at i evs = filter (\<lambda>e. event_conn e = Some i) evs"

fun phase :: "operation option \<Rightarrow> nat" where
  "phase (Some Handshake) = 0"
| "phase (Some Read) = 1"
| "phase (Some Write) = 1"
| "phase None = 2"

definition progress :: "connection \<Rightarrow> nat" where
  "progress c = length (received c) + phase (pending c)"

lemma on_read_progress:
  assumes "on_read rh w i ec bytes sv = Some (x, sv')" "objects sv i = Some c" "pending c = Some Read"
    and "ec = success \<longrightarrow> bytes \<noteq> []"
  shows "\<exists>c'. objects sv' i = Some c' \<and> progress c < progress c'"
  using assms(1,2)
  by (rule on_read_cases)
    (use assms(2-4) in \<open>simp_all add: progress_def after_read_def completion_defs\<close>)

lemma step_progress:
  assumes "step rh sv e sv'" "event_conn e = Some i" "brings_bytes e"
  shows "\<exists>c c'. objects sv i = Some c \<and> objects sv' i = Some c' \<and> pending c \<noteq> None \<and> progress c < progress c' \<and>
    (is_write e \<longrightarrow> pending c' = None)"
  using assms
proof (induction rule: step.induct)
  case (step_read sv j bytes w ec x sv')
  then obtain c where c: "objects sv i = Some c" "pending c = Some Read" and j: "j = i"
    by (auto simp: has_pending_def)
  with on_read_progress [OF step_read(3)] step_read c show ?case by auto
qed (auto simp: has_pending_def on_handshake_def on_write_def progress_def completion_defs)

lemma step_other:
  assumes st: "step rh sv e sv'" and inv: "server_inv rh sv" and e: "event_conn e \<noteq> Some i"
  shows "objects sv i = Some c \<Longrightarrow> \<exists>c'. objects sv' i = Some c' \<and> pending c' = pending c \<and> received c' = received c"
    and "objects sv i = None \<Longrightarrow> objects sv' i = Some c' \<Longrightarrow> pending c' \<noteq> None"
proof -
  assume c: "objects sv i = Some c"
  show "\<exists>c'. objects sv' i = Some c' \<and> pending c' = pending c \<and> received c' = received c"
  proof (cases "e = Destroyed")
    case True
    with st have "sv' = destroy sv" by (auto elim: step.cases)
    with c show ?thesis by (simp add: destroy_def stop_all_def conn_stop_def)
  next
    case False
    from step_frame(1) [OF st inv c e False] show ?thesis by blast
  qed
next
  assume "objects sv i = None" "objects sv' i = Some c'"
  with st e show "pending c' \<noteq> None"
  proof (induction rule: step.induct)
    case (step_read sv j bytes w ec x sv')
    then show ?case using on_read_frame(1) [OF step_read(3,1), of i] by auto
  qed (auto simp: on_accept_def on_handshake_def on_write_def create_connection_def manager_start_def
      conn_start_def do_accept_def completion_defs destroy_def stop_all_def new_connection_def
      split: if_splits)
qed

definition paced :: "nat \<Rightarrow> 'w event list \<Rightarrow> connection option \<Rightarrow> bool" where
  "paced i evs co \<longleftrightarrow> (case co of
     None \<Rightarrow> events_at i evs = []
   | Some c \<Rightarrow> length (events_at i evs) \<le> progress c \<and>
       length (filter is_write (events_at i evs)) \<le> (if pending c = None then 1 else 0))"

lemma step_paced:
  assumes st: "step rh sv e sv'" and inv: "server_inv rh sv" and "brings_bytes e"
    and p: "paced i evs (objects sv i)"
  shows "paced i (evs @ [e]) (objects sv' i)"
proof (cases "event_conn e = Some i")
  case True
  from step_progress [OF st True assms(3)] p show ?thesis
    by (auto simp: paced_def events_at_def True)
next
  case False
  then have same: "events_at i (evs @ [e]) = events_at i evs" by (simp add: events_at_def)
  show ?thesis
  proof (cases "objects sv i")
    case None
    with p step_other(2) [OF st inv False None] show ?thesis
      by (auto simp: paced_def same split: option.split)
  next
    case (Some c)
    with p step_other(1) [OF st inv False Some] show ?thesis
      by (auto simp: paced_def same progress_def)
  qed
qed

lemma run_paced:
  "run rh sv evs sv' \<Longrightarrow> server_inv rh sv \<Longrightarrow> \<forall>e \<in> set evs. brings_bytes e \<Longrightarrow> objects sv i = None \<Longrightarrow>
     paced i evs (objects sv' i)"
proof (induction rule: run.induct)
  case (run_snoc sv evs sv1 e sv2)
  then show ?case
    using step_paced [OF run_snoc.hyps(2) run_inv [OF run_snoc.hyps(1) run_snoc.prems(1)]] by simp
qed (simp add: paced_def events_at_def)

inductive_cases run_NilE: "run rh sv [] sv'"
inductive_cases run_snocE: "run rh sv (evs @ [e]) sv'"
inductive_simps step_simps_event [simp]:
  "step rh sv (Accepted ec) sv'"
  "step rh sv (Handshaken i ec) sv'"
  "step rh sv (Received i ec bytes w x) sv'"
  "step rh sv (Written i ec n) sv'"
  "step rh sv Destroyed sv'"


lemma step_raised:
  assumes "step rh sv (Received i ec bytes w (Some e)) sv'"
  shows "\<exists>c. objects sv' i = Some c \<and> pending c = None \<and> (i \<in> connections sv' \<longleftrightarrow> i \<in> connections sv)"
proof -
  from assms obtain c where c: "objects sv i = Some c"
    and r: "on_read rh w i ec bytes sv = Some (Some e, sv')"
    by (auto simp: has_pending_def)
  from r c show ?thesis
    by (rule on_read_cases) (simp_all add: c after_read_def)
qed

lemma step_pending_managed:
  assumes "step rh sv e sv'" "event_conn e = Some i" "server_inv rh sv"
  shows "i \<in> connections sv"
proof -
  have "\<exists>c. objects sv i = Some c \<and> pending c \<noteq> None \<and> running sv"
    using assms(1,2) by (auto simp: has_pending_def elim!: step.cases)
  then show ?thesis using server_inv_object(4) [OF assms(3)] by blast
qed

lemma read_undefined_iff:
  assumes "run rh (listening sec) evs sv" "objects sv i = Some c" "pending c = Some Read"
  shows "on_read rh w i ec bytes sv = None \<longleftrightarrow>
    ec = success \<and> (overlong_major (bytes_in i evs @ bytes) \<or> overlong_minor (bytes_in i evs @ bytes))"
proof -
  have "received c = bytes_in i evs" by (rule run_received_bytes [OF assms(1,2)])
  moreover have "awaiting c"
    using server_inv_object(2) [OF run_inv [OF assms(1) listening_inv] assms(2)] assms(3)
    by (simp add: conn_inv_def)
  ultimately have "parse (conn_parser c) (conn_request c) bytes =
      parse method_start empty_request (bytes_in i evs @ bytes)"
    by (simp add: awaiting_def parse_append)
  then show ?thesis
    by (simp add: on_read_undefined [OF assms(2)] parse_undefined)
qed


subsection \<open>A server at work\<close>

text \<open>A client that sends its request in two parts to a server whose handler finds nothing\<close>

definition hello :: string where
  "hello = ''GET / HTTP/1.0'' @ CRLF @ CRLF"

definition nowhere :: "unit request_handler" where
  "nowhere = Some (\<lambda>w req rep. Inr (stock_reply not_found))"

definition thrower :: "unit request_handler" where
  "thrower = Some (\<lambda>w req rep. Inl (Handler_exception ''x''))"

lemma parse_hello:
  "parse method_start empty_request hello = Some (good, [], expecting_newline_3, request_of ''GET'' ''/'' 1 0 [])"
  by code_simp

definition accepted_server :: server where
  "accepted_server = on_accept success (listening False)"

lemma objects_accepted:
  "objects accepted_server = [0 \<mapsto> new_connection\<lparr>pending := Some Read\<rparr>]"
  "connections accepted_server = {0}" "running accepted_server"
  by (auto simp: accepted_server_def on_accept_def listening_def do_accept_def create_connection_def
      manager_start_def conn_start_def completion_defs update_object_def)

lemma run_accepted: "run rh (listening False) [Accepted success] accepted_server"
proof -
  have "step rh (listening False) (Accepted success) accepted_server"
    by (simp add: accepted_server_def listening_def do_accept_def)
  from run_snoc [OF run_Nil this] show ?thesis by simp
qed

definition answered_server :: "reply \<Rightarrow> server" where
  "answered_server rep = update_object 0
     (after_read (Some Write) rep expecting_newline_3 (request_of ''GET'' ''/'' 1 0 []) hello) accepted_server"

lemma step_hello:
  assumes "handle_request rh w (request_of ''GET'' ''/'' 1 0 []) empty_reply = Inr rep"
  shows "step rh accepted_server (Received 0 success hello w None) (answered_server rep)"
proof -
  have "on_read rh w 0 success hello accepted_server = Some (None, answered_server rep)"
    using assms by (simp add: on_read_def objects_accepted new_connection_def parse_hello
        answered_server_def update_object_def completion_defs after_read_def Let_def)
  moreover have "length hello \<le> 8192" by code_simp
  ultimately show ?thesis
    by (simp add: has_pending_def objects_accepted new_connection_def)
qed

lemma run_answered:
  assumes "handle_request rh w (request_of ''GET'' ''/'' 1 0 []) empty_reply = Inr rep"
  shows "run rh (listening False) [Accepted success, Received 0 success hello w None] (answered_server rep)"
  using run_snoc [OF run_accepted step_hello [OF assms]] by simp

lemma handle_nowhere: "handle_request nowhere w req rep = Inr (stock_reply not_found)"
  by (simp add: handle_request_def nowhere_def)

lemma objects_answered:
  "objects (answered_server rep) 0 = Some (after_read (Some Write) rep expecting_newline_3
     (request_of ''GET'' ''/'' 1 0 []) hello (new_connection\<lparr>pending := Some Read\<rparr>))"
  "running (answered_server rep)"
  by (simp_all add: answered_server_def objects_accepted)

definition raised_server :: server where
  "raised_server = update_object 0
     (after_read None empty_reply expecting_newline_3 (request_of ''GET'' ''/'' 1 0 []) hello) accepted_server"

lemma step_raise:
  "step thrower accepted_server (Received 0 success hello () (Some (Handler_exception ''x''))) raised_server"
proof -
  have "on_read thrower () 0 success hello accepted_server =
      Some (Some (Handler_exception ''x''), raised_server)"
    by (simp add: on_read_def objects_accepted new_connection_def parse_hello handle_request_def
        thrower_def raised_server_def update_object_def completion_defs after_read_def Let_def)
  moreover have "length hello \<le> 8192" by code_simp
  ultimately show ?thesis
    by (simp add: has_pending_def objects_accepted new_connection_def)
qed


subsection \<open>A client that sends its request in parts\<close>

text \<open>As long as the request is not complete the server goes on reading.\<close>

lemma step_more_input:
  assumes "has_pending sv i Read" "objects sv i = Some c" "length bytes \<le> 8192"
    and "parse (conn_parser c) (conn_request c) bytes = Some (indeterminate, rest, p, q)"
  shows "step rh sv (Received i success bytes w None)
    (update_object i (after_read (Some Read) (conn_reply c) p q bytes) sv)"
proof -
  from assms(2,4) obtain sv' where r: "on_read rh w i success bytes sv = Some (None, sv')"
    by (simp add: on_read_def Let_def)
  from r assms(2) have "sv' = update_object i (after_read (Some Read) (conn_reply c) p q bytes) sv"
    by (rule on_read_cases) (use assms(4) in simp_all)
  with r assms(1,3) show ?thesis by simp
qed

text \<open>And if its last part comes, the handler is called and the reply is written.\<close>

lemma step_replied:
  assumes "has_pending sv i Read" "objects sv i = Some c" "length bytes \<le> 8192"
    and "parse (conn_parser c) (conn_request c) bytes = Some (good, rest, p, q)"
    and "handle_request rh w q (conn_reply c) = Inr rep"
  shows "step rh sv (Received i success bytes w None)
    (update_object i (after_read (Some Write) rep p q bytes) sv)"
proof -
  from assms(2,4,5) obtain sv' where r: "on_read rh w i success bytes sv = Some (None, sv')"
    by (simp add: on_read_def Let_def)
  from r assms(2) have "sv' = update_object i (after_read (Some Write) rep p q bytes) sv"
    by (rule on_read_cases) (use assms(4,5) in simp_all)
  with r assms(1,3) show ?thesis by simp
qed

lemma parse_last_part:
  assumes "parse s r (xs @ ys) = Some (good, [], s', r')" "ys \<noteq> []"
  shows "\<exists>s1 r1. parse s r xs = Some (indeterminate, [], s1, r1) \<and> parse s1 r1 ys = Some (good, [], s', r')"
proof -
  from assms obtain s1 r1 rest where p: "parse s r xs = Some (indeterminate, rest, s1, r1)"
    "parse s1 r1 ys = Some (good, [], s', r')"
    by (auto simp: parse_append split: option.splits if_splits)
  from parse_indeterminate [OF p(1)] p show ?thesis by simp
qed

lemma feed_request:
  assumes "run rh sv0 evs sv" "has_pending sv i Read" "objects sv i = Some c" "awaiting c"
    and "parse (conn_parser c) (conn_request c) (concat bs) = Some (good, [], p, q)"
    and "bs \<noteq> []" "\<forall>b \<in> set bs. b \<noteq> [] \<and> length b \<le> 8192"
    and "handle_request rh w q empty_reply = Inr rep"
  shows "\<exists>sv' c'. run rh sv0 (evs @ map (\<lambda>b. Received i success b w None) bs) sv' \<and> has_pending sv' i Write \<and>
    objects sv' i = Some c' \<and> conn_reply c' = rep"
  using assms
proof (induction bs arbitrary: evs sv c)
  case (Cons b bs)
  then have b: "length b \<le> 8192" by simp
  show ?case
  proof (cases "bs = []")
    case True
    with Cons.prems have p: "parse (conn_parser c) (conn_request c) b = Some (good, [], p, q)"
      "handle_request rh w q (conn_reply c) = Inr rep"
      by (simp_all add: awaiting_def)
    let ?sv = "update_object i (after_read (Some Write) rep p q b) sv"
    have "run rh sv0 (evs @ [Received i success b w None]) ?sv"
      by (rule run_snoc [OF Cons.prems(1) step_replied [OF Cons.prems(2,3) b p]])
    moreover have "has_pending ?sv i Write" "objects ?sv i = Some (after_read (Some Write) rep p q b c)"
      using Cons.prems(2,3) by (simp_all add: has_pending_def after_read_def)
    ultimately show ?thesis
      by (intro exI [of _ ?sv] exI [of _ "after_read (Some Write) rep p q b c"]) (simp add: True after_read_def)
  next
    case False
    have "concat bs \<noteq> []" using False Cons.prems(7) by (cases bs) auto
    with parse_last_part [of "conn_parser c" "conn_request c" b "concat bs" p q] Cons.prems(5)
    obtain s1 r1 where p: "parse (conn_parser c) (conn_request c) b = Some (indeterminate, [], s1, r1)"
      "parse s1 r1 (concat bs) = Some (good, [], p, q)"
      by auto
    let ?c = "after_read (Some Read) (conn_reply c) s1 r1 b c"
    let ?sv = "update_object i (after_read (Some Read) (conn_reply c) s1 r1 b) sv"
    have r: "run rh sv0 (evs @ [Received i success b w None]) ?sv"
      by (rule run_snoc [OF Cons.prems(1) step_more_input [OF Cons.prems(2,3) b p(1)]])
    have sv: "has_pending ?sv i Read" "objects ?sv i = Some ?c"
      using Cons.prems(2,3) by (simp_all add: has_pending_def after_read_def)
    have "awaiting ?c"
      using awaiting_read [OF Cons.prems(4) p(1)] Cons.prems(4) by (simp add: awaiting_def after_read_def)
    moreover have "parse (conn_parser ?c) (conn_request ?c) (concat bs) = Some (good, [], p, q)"
      using p(2) by (simp add: after_read_def)
    ultimately show ?thesis
      using Cons.IH [OF r sv _ _ False _ Cons.prems(8)] Cons.prems(7) by auto
  qed
qed simp

text \<open>
  Neither the size of a request nor the number of reads is limited: a client that sends one byte of a
  URI after the other is read from for ever, and all of it is kept.
\<close>

definition reading_uri :: "server \<Rightarrow> bool" where
  "reading_uri sv \<longleftrightarrow> (\<exists>c. objects sv 0 = Some c \<and> pending c = Some Read \<and> conn_parser c = uri_s) \<and> running sv"

lemma step_uri_byte:
  assumes "reading_uri sv"
  shows "\<exists>sv'. step rh sv (Received 0 success ''a'' w None) sv' \<and> reading_uri sv'"
proof -
  obtain c where c: "objects sv 0 = Some c" "pending c = Some Read" "conn_parser c = uri_s" "running sv"
    using assms by (auto simp: reading_uri_def)
  let ?q = "(conn_request c)\<lparr>req_uri := req_uri (conn_request c) @ ''a''\<rparr>"
  have "\<not> is_ctl (char_int (CHR ''a''))" by code_simp
  then have p: "parse (conn_parser c) (conn_request c) ''a'' = Some (indeterminate, [], uri_s, ?q)"
    by (simp add: c(3) consume_uri_def)
  let ?sv = "update_object 0 (after_read (Some Read) (conn_reply c) uri_s ?q ''a'') sv"
  have "step rh sv (Received 0 success ''a'' w None) ?sv"
    by (rule step_more_input [OF _ c(1) _ p]) (simp_all add: has_pending_def c)
  moreover have "reading_uri ?sv" by (simp add: reading_uri_def c after_read_def)
  ultimately show ?thesis by blast
qed

lemma step_uri_start: "\<exists>sv. step rh accepted_server (Received 0 success ''GET /'' w None) sv \<and> reading_uri sv"
proof -
  have p: "parse (conn_parser (new_connection\<lparr>pending := Some Read\<rparr>)) (conn_request (new_connection\<lparr>pending := Some Read\<rparr>))
      ''GET /'' = Some (indeterminate, [], uri_s, empty_request\<lparr>req_method := ''GET'', req_uri := ''/''\<rparr>)"
    by code_simp
  have o: "objects accepted_server 0 = Some (new_connection\<lparr>pending := Some Read\<rparr>)"
    by (simp add: objects_accepted)
  let ?sv = "update_object 0 (after_read (Some Read) (conn_reply (new_connection\<lparr>pending := Some Read\<rparr>)) uri_s
      (empty_request\<lparr>req_method := ''GET'', req_uri := ''/''\<rparr>) ''GET /'') accepted_server"
  have "step rh accepted_server (Received 0 success ''GET /'' w None) ?sv"
    by (rule step_more_input [OF _ o _ p]) (simp_all add: has_pending_def objects_accepted)
  moreover have "reading_uri ?sv" by (simp add: reading_uri_def objects_accepted after_read_def)
  ultimately show ?thesis by blast
qed

lemma no_request_limit:
  fixes rh :: "'w request_handler"
  shows "\<exists>evs sv. run rh (listening False) evs sv \<and> reading_uri sv \<and> n \<le> length (bytes_in 0 evs)"
proof (induction n)
  case 0
  obtain sv where sv: "step rh accepted_server (Received 0 success ''GET /'' undefined None) sv" "reading_uri sv"
    using step_uri_start [of rh undefined] by (elim exE conjE) rule
  show ?case
    by (rule exI, rule exI, rule conjI [OF run_snoc [OF run_accepted sv(1)]]) (simp add: sv(2))
next
  case (Suc n)
  then obtain evs sv where r: "run rh (listening False) evs sv" "reading_uri sv" "n \<le> length (bytes_in 0 evs)"
    by blast
  obtain sv' where sv': "step rh sv (Received 0 success ''a'' undefined None) sv'" "reading_uri sv'"
    using step_uri_byte [OF r(2), of rh undefined] by (elim exE conjE) rule
  show ?case
    by (rule exI, rule exI, rule conjI [OF run_snoc [OF r(1) sv'(1)]])
      (use r(3) in \<open>simp add: sv'(2) bytes_in_def\<close>)
qed


text \<open>The rest of a request, in any parts, is read, handled and answered.\<close>

lemma request_answered:
  assumes "run rh (listening sec) evs sv" "running sv" "objects sv i = Some c" "pending c = Some Read"
    and "method_ok m" "uri_ok u" "number_ok vmaj" "number_ok vmin"
    and "version_fits vmaj" "version_fits vmin" "lines_ok False ls"
    and "bytes_in i evs @ concat bs = request_text m u vmaj vmin ls"
    and "bs \<noteq> []" "\<forall>b \<in> set bs. b \<noteq> [] \<and> length b \<le> 8192"
    and "handle_request rh w (request_of m u (int (decimal vmaj)) (int (decimal vmin)) ls) empty_reply = Inr rep"
  shows "\<exists>sv' c'. run rh (listening sec)
      (evs @ map (\<lambda>b. Received i success b w None) bs @ [Written i success (length (wire rep))]) sv' \<and>
    objects sv' i = Some c' \<and> sent c' = wire rep \<and> \<not> socket_open c'"
proof -
  have "awaiting c"
    using server_inv_object(2) [OF run_inv [OF assms(1) listening_inv] assms(3)] assms(4) by (simp add: conn_inv_def)
  moreover from this have "parse (conn_parser c) (conn_request c) (concat bs) =
      Some (good, [], expecting_newline_3, request_of m u (int (decimal vmaj)) (int (decimal vmin)) ls)"
    using parse_request_fits [OF assms(5-11), of "[]"] run_received_bytes [OF assms(1,3)]
    by (simp add: awaiting_def parse_append flip: assms(12))
  moreover have "has_pending sv i Read" using assms(2-4) by (simp add: has_pending_def)
  ultimately obtain sv1 c1 where r: "run rh (listening sec) (evs @ map (\<lambda>b. Received i success b w None) bs) sv1"
    and p: "has_pending sv1 i Write" and c1: "objects sv1 i = Some c1" "conn_reply c1 = rep"
    using feed_request [OF assms(1) _ assms(3) _ _ assms(13,14,15)] by blast
  have st: "step rh sv1 (Written i success (length (wire rep))) (on_write i success (length (wire rep)) sv1)"
    using p c1 by simp
  from written_answer [OF r st] obtain c' where c': "objects (on_write i success (length (wire rep)) sv1) i = Some c'"
    "\<not> socket_open c'" by blast
  have "sent c' = wire rep"
    using c'(1) c1 by (auto simp: on_write_def completion_defs)
  with run_snoc [OF r st] c' show ?thesis by auto
qed


subsection \<open>Properties\<close>

text \<open>
  C21 (managed_iff_open): in every reachable state the connection manager holds exactly the
  connections whose socket is open, and while the server lives no other connection waits for an
  operation.
\<close>

theorem managed_iff_open:
  assumes "run rh (listening sec) evs sv" "objects sv i = Some c"
  shows "(socket_open c \<longleftrightarrow> i \<in> connections sv) \<and> (running sv \<and> pending c \<noteq> None \<longrightarrow> i \<in> connections sv)"
  using server_inv_object [OF run_inv [OF assms(1) listening_inv] assms(2)] by blast

theorem managed_iff_open_witness:
  "socket_open (new_connection\<lparr>pending := Some Read\<rparr>) \<and> 0 \<in> connections accepted_server"
  using managed_iff_open [OF run_accepted [of nowhere], of 0 "new_connection\<lparr>pending := Some Read\<rparr>"]
  by (simp add: objects_accepted new_connection_def)

text \<open>
  C16 (sent_is_answer): what a client has read from its connection is a part, from the start, of one
  answer to the bytes that it wrote: the handler's reply to the request that these are, or the 400
  page when they are none. It does not depend on how the bytes were cut, and nothing is ever sent
  before the request is complete.
\<close>

theorem sent_is_answer:
  assumes "run rh (listening sec) evs sv" "objects sv i = Some c" "sent c \<noteq> []"
  shows "\<exists>rep. answers rh (bytes_in i evs) rep \<and> prefix (sent c) (wire rep)"
  by (rule run_sent [OF assms])

theorem sent_is_answer_witness:
  "\<exists>rep. answers nowhere hello rep \<and> prefix (take 12 (wire (stock_reply not_found))) (wire rep)"
proof -
  let ?sv = "on_write 0 other_error 12 (answered_server (stock_reply not_found))"
  have "step nowhere (answered_server (stock_reply not_found)) (Written 0 other_error 12) ?sv"
    by (simp add: has_pending_def objects_answered after_read_def)
  from run_snoc [OF run_answered [OF handle_nowhere] this]
  have "run nowhere (listening False)
      [Accepted success, Received 0 success hello () None, Written 0 other_error 12] ?sv" by simp
  moreover have "objects ?sv 0 = Some (conn_stop (after_read None (stock_reply not_found) expecting_newline_3
      (request_of ''GET'' ''/'' 1 0 []) hello (new_connection\<lparr>sent := take 12 (wire (stock_reply not_found))\<rparr>)))"
    by (simp add: on_write_def completion_defs objects_answered after_read_def)
  moreover have "take 12 (wire (stock_reply not_found)) \<noteq> []"
    by (simp add: wire_eq)
  ultimately show ?thesis
    using sent_is_answer [of nowhere False
        "[Accepted success, Received 0 success hello () None, Written 0 other_error 12]" ?sv 0]
    by (simp add: after_read_def conn_stop_def bytes_in_def)
qed

text \<open>
  When a write has succeeded, the client has the whole serialisation of an
  answer to what it sent, and the connection is closed and forgotten.
\<close>

theorem written_completes:
  assumes "run rh (listening sec) evs sv" "step rh sv (Written i success n) sv'"
  shows "i \<notin> connections sv' \<and> (\<exists>c rep. objects sv' i = Some c \<and> sent c = wire rep \<and>
    \<not> socket_open c \<and> answers rh (bytes_in i evs) rep)"
  by (rule written_answer [OF assms])

theorem written_completes_witness:
  "\<exists>c rep. objects (on_write 0 success (length (wire (stock_reply not_found))) (answered_server (stock_reply not_found))) 0 = Some c \<and>
     sent c = wire rep \<and> \<not> socket_open c \<and> answers nowhere hello rep"
proof -
  have "step nowhere (answered_server (stock_reply not_found)) (Written 0 success (length (wire (stock_reply not_found))))
      (on_write 0 success (length (wire (stock_reply not_found))) (answered_server (stock_reply not_found)))"
    by (simp add: has_pending_def objects_answered after_read_def)
  from written_completes [OF run_answered [OF handle_nowhere] this] show ?thesis by (simp add: bytes_in_def)
qed

text \<open>
  C28 (exception_abandons): after an exception of the request handler the connection stays in the
  connection manager with its socket open and without an operation, whatever happens later, until the
  server is destroyed: the client gets no reply and is not disconnected.
\<close>

theorem exception_abandons:
  assumes "run rh (listening sec) evs sv" "step rh sv (Received i ec bytes w (Some e)) sv1"
    and "run rh sv1 evs' sv'" "Destroyed \<notin> set evs'"
  shows "i \<in> connections sv' \<and> (\<exists>c. objects sv' i = Some c \<and> pending c = None \<and> socket_open c)"
proof -
  have inv: "server_inv rh sv" "server_inv rh sv1"
    using run_inv [OF assms(1) listening_inv] step_inv [OF assms(2)] by blast+
  obtain c where c: "objects sv1 i = Some c" "pending c = None"
    and m: "i \<in> connections sv1 \<longleftrightarrow> i \<in> connections sv"
    using step_raised [OF assms(2)] by blast
  have "i \<in> connections sv1"
    using step_pending_managed [OF assms(2) _ inv(1)] m by simp
  moreover have "socket_open c" using calculation server_inv_object(3) [OF inv(2) c(1)] by simp
  ultimately show ?thesis
    using run_idle [OF assms(3) inv(2) c assms(4)] c(2) by blast
qed

theorem exception_abandons_witness:
  "0 \<in> connections raised_server \<and> (\<exists>c. objects raised_server 0 = Some c \<and> pending c = None \<and> socket_open c)"
  by (rule exception_abandons [OF run_accepted step_raise run_Nil]) simp

text \<open>
  C30 (managed_makes_progress): a managed connection waits for an operation, so it will be served or
  closed, unless the request handler threw on it or asio aborted an operation of it.
\<close>

theorem managed_makes_progress:
  assumes "run rh (listening sec) evs sv" "Destroyed \<notin> set evs" "i \<in> connections sv"
  shows "busy sv i \<or> (\<exists>e \<in> set evs. abandons i e)"
  using run_busy [OF assms(1) listening_inv _ assms(2)] assms(3)
  by (simp add: listening_def do_accept_def)

theorem managed_makes_progress_witness: "busy accepted_server 0"
  using managed_makes_progress [OF run_accepted [of nowhere], of 0] by (simp add: objects_accepted)

text \<open>
  C32 (reply_stable): from the start of a write to its completion the reply of the connection is not
  changed, so the buffers that refer to it stay valid, as \<^verbatim>\<open>reply::to_buffers\<close> demands.
\<close>

theorem reply_stable:
  assumes "run rh (listening sec) evs sv" "step rh sv e sv'"
    and "objects sv i = Some c" "pending c = Some Write"
  shows "\<exists>c'. objects sv' i = Some c' \<and> conn_reply c' = conn_reply c"
proof (cases "event_conn e = Some i \<or> e = Destroyed")
  case True
  from assms(2) True assms(3,4) show ?thesis
    by (induction rule: step.induct)
      (auto simp: has_pending_def on_write_def completion_defs destroy_def stop_all_def)
next
  case False
  then show ?thesis
    using step_frame(1) [OF assms(2) run_inv [OF assms(1) listening_inv] assms(3)] by blast
qed

theorem reply_stable_witness:
  "\<exists>c'. objects (destroy (answered_server (stock_reply not_found))) 0 = Some c' \<and>
     conn_reply c' = stock_reply not_found"
proof -
  have "step nowhere (answered_server (stock_reply not_found)) Destroyed
      (destroy (answered_server (stock_reply not_found)))"
    by (simp add: objects_answered)
  from reply_stable [OF run_answered [OF handle_nowhere] this objects_answered(1)]
  show ?thesis by (simp add: after_read_def)
qed

text \<open>
  C31 (connections_isolated): an event of one connection, or a new connection, changes neither the
  state of another nor its place in the connection manager.
\<close>

theorem connections_isolated:
  assumes "run rh (listening sec) evs sv" "step rh sv e sv'" "objects sv j = Some c"
    and "event_conn e \<noteq> Some j" "e \<noteq> Destroyed"
  shows "objects sv' j = Some c \<and> (j \<in> connections sv' \<longleftrightarrow> j \<in> connections sv)"
  using step_frame [OF assms(2) run_inv [OF assms(1) listening_inv] assms(3-5)] by blast

theorem connections_isolated_witness:
  "objects (on_accept success accepted_server) 0 = Some (new_connection\<lparr>pending := Some Read\<rparr>)"
proof -
  have "step nowhere accepted_server (Accepted success) (on_accept success accepted_server)"
    by (simp add: objects_accepted) (simp add: accepted_server_def on_accept_def listening_def do_accept_def
        create_connection_def manager_start_def conn_start_def completion_defs update_object_def)
  from connections_isolated [OF run_accepted this, of 0] show ?thesis by (simp add: objects_accepted)
qed

text \<open>
  A read runs into undefined behaviour exactly when the bytes that the client
  has sent so far, with those of this read, start with a request line whose version number comes
  within 48 of \<^verbatim>\<open>INT_MAX\<close>.
\<close>

theorem read_undefined:
  assumes "run rh (listening sec) evs sv" "objects sv i = Some c" "pending c = Some Read"
  shows "on_read rh w i ec bytes sv = None \<longleftrightarrow>
    ec = success \<and> (overlong_major (bytes_in i evs @ bytes) \<or> overlong_minor (bytes_in i evs @ bytes))"
  by (rule read_undefined_iff [OF assms])

theorem read_undefined_witness:
  "on_read nowhere () 0 success ''GET / HTTP/9999999999'' accepted_server = None"
  using read_undefined [OF run_accepted [of nowhere], of 0 "new_connection\<lparr>pending := Some Read\<rparr>" "()" success
      "''GET / HTTP/9999999999''"] overflow_example [unfolded parse_undefined]
  by (simp add: objects_accepted bytes_in_def)

text \<open>
  C22 (connection_terminates): if every read without error brings something, a connection takes at
  most two steps more than the number of bytes that its client sent, and at most one of them is the
  completion of a write: every connection ends, or waits for its client.
\<close>

theorem connection_terminates:
  assumes "run rh (listening sec) evs sv" "\<forall>e \<in> set evs. brings_bytes e"
  shows "length (events_at i evs) \<le> length (bytes_in i evs) + 2 \<and> length (filter is_write (events_at i evs)) \<le> 1"
proof (cases "objects sv i")
  case None
  with run_paced [OF assms(1) listening_inv assms(2), of i] show ?thesis
    by (simp add: paced_def listening_def do_accept_def)
next
  case (Some c)
  have "phase (pending c) \<le> 2" by (cases "pending c" rule: phase.cases) simp_all
  with Some run_paced [OF assms(1) listening_inv assms(2), of i] run_received_bytes [OF assms(1) Some]
  show ?thesis by (auto simp: paced_def progress_def listening_def do_accept_def split: if_splits)
qed

theorem connection_terminates_witness:
  "length (events_at 0 [Accepted success, Received 0 success hello () None]) \<le> length hello + 2"
  using connection_terminates [OF run_answered [OF handle_nowhere], where i = 0]
  by (simp add: bytes_in_def hello_def)

text \<open>
  C7 (request_is_answered): in every reachable state, a client whose connection is read from can send
  the rest of a request in any parts, and the server reads them, calls its handler, writes the whole
  reply and closes the connection, provided that the handler returns.
\<close>

theorem request_is_answered:
  assumes "run rh (listening sec) evs sv" "running sv" "objects sv i = Some c" "pending c = Some Read"
    and "method_ok m" "uri_ok u" "number_ok vmaj" "number_ok vmin"
    and "version_fits vmaj" "version_fits vmin" "lines_ok False ls"
    and "bytes_in i evs @ concat bs = request_text m u vmaj vmin ls"
    and "bs \<noteq> []" "\<forall>b \<in> set bs. b \<noteq> [] \<and> length b \<le> 8192"
    and "handle_request rh w (request_of m u (int (decimal vmaj)) (int (decimal vmin)) ls) empty_reply = Inr rep"
  shows "\<exists>sv' c'. run rh (listening sec)
      (evs @ map (\<lambda>b. Received i success b w None) bs @ [Written i success (length (wire rep))]) sv' \<and>
    objects sv' i = Some c' \<and> sent c' = wire rep \<and> \<not> socket_open c'"
  by (rule request_answered [OF assms])

theorem request_is_answered_witness:
  "\<exists>sv' c'. run nowhere (listening False)
      ([Accepted success] @ map (\<lambda>b. Received 0 success b () None) [''GET '', ''/ HTTP/1.0'' @ [CR], [LF, CR, LF]] @
       [Written 0 success (length (wire (stock_reply not_found)))]) sv' \<and>
    objects sv' 0 = Some c' \<and> sent c' = wire (stock_reply not_found) \<and> \<not> socket_open c'"
proof -
  have ok: "method_ok ''GET''" "uri_ok ''/''" "number_ok ''1''" "number_ok ''0''" "version_fits ''1''"
    "version_fits ''0''" "lines_ok False []"
    by code_simp+
  show ?thesis
    by (rule request_is_answered [OF run_accepted _ _ _ ok, where c = "new_connection\<lparr>pending := Some Read\<rparr>"])
      (simp_all add: objects_accepted bytes_in_def request_text_def version_text_def handle_nowhere new_connection_def)
qed

end
