(* ===== verification/Config_Server.thy ===== *)
theory Config_Server
  imports Server_Main Connection_Runs
begin

section \<open>Building the servers (\<open>src/server/main.cpp\<close>)\<close>

text \<open>
  \<^verbatim>\<open>build_simple_server\<close>, \<^verbatim>\<open>build_advanced_server\<close> and the part of \<^verbatim>\<open>main\<close> that calls them. The
  configuration is what the JSON library finds for the keys of the file: \<open>None\<close> is a key that is
  absent, \<open>Mistyped\<close> a value of a type that the code does not expect. Setting up TLS and binding a socket may throw; whether they do is in the \<open>environment\<close>.
  The result of a build is a server that listens, with the handler of its requests.
\<close>

record location_entry =
  cfg_root :: "string typed option"
  cfg_location :: "string typed option"

record return_section =
  cfg_status :: "string typed option"
  cfg_headers :: "(string \<times> string typed) list list option"

text \<open>The loops run over whatever values the library finds; those that are no objects throw when they are used.\<close>

record server_entry =
  cfg_listen_address :: "string typed option"
  cfg_listen_port :: "string typed option"
  cfg_ssl :: "ssl_section typed option"
  cfg_return :: "return_section typed option"
  cfg_locations :: "location_entry typed list option"

record environment =
  env_sort :: sorter
  env_order :: "ssl_proto set \<Rightarrow> ssl_proto list"
  env_tls :: "ssl_call \<Rightarrow> exn option"
  env_net :: network

type_synonym app = "file_history request_handler \<times> server"

text \<open>\<^verbatim>\<open>section.at(key)\<close> throws when the key is absent.\<close>

definition at_key :: "string \<Rightarrow> 'a option \<Rightarrow> exn + 'a" where
  "at_key key v = (case v of Some x \<Rightarrow> Inr x | None \<Rightarrow> Inl (Missing_key key))"

definition string_at :: "string \<Rightarrow> 'a typed option \<Rightarrow> exn + 'a" where
  "string_at key v = andthen (at_key key v) convert"

definition value_or :: "'a option \<Rightarrow> 'a \<Rightarrow> 'a" where
  "value_or v d = (case v of Some x \<Rightarrow> x | None \<Rightarrow> d)"

fun build_locations :: "sorter \<Rightarrow> location_entry typed list \<Rightarrow> router \<Rightarrow> exn + router" where
  "build_locations srt [] R = Inr R"
| "build_locations srt (t # es) R =
     andthen (convert t) (\<lambda>e.
     andthen (string_at ''root'' (cfg_root e)) (\<lambda>root_doc.
     andthen (string_at ''location'' (cfg_location e)) (\<lambda>path.
       build_locations srt es (add srt path (static_content root_doc) R))))"

definition build_tls :: "environment \<Rightarrow> ssl_section typed option \<Rightarrow> exn + unit" where
  "build_tls env ssl =
     (case ssl of
        None \<Rightarrow> Inr ()
      | Some t \<Rightarrow>
          andthen (convert t) (\<lambda>sec.
          andthen (read_ssl_section sec) (\<lambda>s. construct_https (env_tls env) (env_order env) s)))"

definition build_handler :: "sorter \<Rightarrow> server_entry \<Rightarrow> exn + file_history request_handler" where
  "build_handler srt entry =
     (case cfg_return entry of
        Some t \<Rightarrow>
          andthen (convert t) (\<lambda>ret.
          andthen (json_value (cfg_status ret) ''ok'') (\<lambda>status_s.
          andthen (build_return status_s (value_or (cfg_headers ret) []))
            (\<lambda>h. Inr (set_service (\<lambda>fsys. h) None))))
      | None \<Rightarrow>
          (case cfg_locations entry of
             Some es \<Rightarrow> andthen (build_locations srt es Map.empty)
               (\<lambda>R. Inr (set_service (\<lambda>fsys. route fsys R) None))
           | None \<Rightarrow> Inr None))"

definition build_entry :: "environment \<Rightarrow> server_entry typed \<Rightarrow> exn + app" where
  "build_entry env t =
     andthen (convert t) (\<lambda>entry.
     andthen (string_at ''listen_address'' (cfg_listen_address entry)) (\<lambda>address.
     (let has_ssl = cfg_ssl entry \<noteq> None in
      andthen (json_value (cfg_listen_port entry) (if has_ssl then ''443'' else ''80'')) (\<lambda>port.
      andthen (build_tls env (cfg_ssl entry)) (\<lambda>_.
      andthen (build_handler (env_sort env) entry) (\<lambda>h.
      andthen (listen (env_net env) port address (new_server has_ssl)) (\<lambda>sv. Inr (h, sv))))))))"

fun build_entries :: "environment \<Rightarrow> server_entry typed list \<Rightarrow> app list \<Rightarrow> exn + app list" where
  "build_entries env [] server_set = Inr server_set"
| "build_entries env (e # es) server_set =
     andthen (build_entry env e) (\<lambda>s. build_entries env es (server_set @ [s]))"

text \<open>The configuration file: absent, no JSON, no object, or with the values under its key \<open>servers\<close>\<close>

datatype config_file =
    No_file
  | Not_json
  | Not_object
  | Json "server_entry typed list option"

definition build_advanced_server :: "environment \<Rightarrow> string \<Rightarrow> config_file \<Rightarrow> app list \<Rightarrow> exn + app list" where
  "build_advanced_server env name cf server_set =
     (case cf of
        No_file \<Rightarrow> Inl (Runtime_error (''Configuration file '' @ name @ '' not found''))
      | Not_json \<Rightarrow> Inl Json_error
      | Not_object \<Rightarrow> Inl Json_error
      | Json servers \<Rightarrow>
          andthen (at_key ''servers'' servers) (\<lambda>es. build_entries env es server_set))"

definition build_simple_server :: "environment \<Rightarrow> string \<Rightarrow> string \<Rightarrow> nat \<Rightarrow> app list \<Rightarrow> exn + app list" where
  "build_simple_server env root_doc bind_address port server_set =
     andthen (listen (env_net env) (to_string port) bind_address (new_server False)) (\<lambda>sv.
       Inr (server_set @
         [(set_service (\<lambda>fsys. route fsys (simple_router (env_sort env) root_doc)) None, sv)]))"

text \<open>
  What the command line library makes of the arguments: a subcommand with the options that were
  given, none, the flag that shows the version, or an error for which it has an exit code.
\<close>

datatype command_line =
    Serve string "string option" "nat option"
  | Config string config_file
  | No_subcommand
  | Show_version
  | Parse_error int

text \<open>\<^verbatim>\<open>main\<close> up to its loop: \<open>Inl\<close> is the exit code of a program that does not get there.\<close>

definition start_servers :: "environment \<Rightarrow> command_line \<Rightarrow> int + app list" where
  "start_servers env cmd =
     (case cmd of
        Serve root_doc bind_address port \<Rightarrow>
          map_sum (\<lambda>e. 1) id (build_simple_server env root_doc (value_or bind_address ''0.0.0.0'') (value_or port 80) [])
      | Config name cf \<Rightarrow> map_sum (\<lambda>e. 1) id (build_advanced_server env name cf [])
      | No_subcommand \<Rightarrow> Inl 1
      | Show_version \<Rightarrow> Inl 0
      | Parse_error code \<Rightarrow> Inl code)"


subsection \<open>What is built\<close>

lemma build_entries_acc:
  "build_entries env es acc = map_sum id (\<lambda>ss. acc @ ss) (build_entries env es [])"
proof (induction es arbitrary: acc)
  case (Cons e es)
  show ?case
  proof (cases "build_entry env e")
    case (Inr s)
    then show ?thesis
      using Cons [of "acc @ [s]"] Cons [of "[s]"]
      by (cases "build_entries env es []") simp_all
  qed simp
qed simp

lemma build_entries_Cons:
  "build_entries env (e # es) [] = Inr ss \<longleftrightarrow>
     (\<exists>s ss'. ss = s # ss' \<and> build_entry env e = Inr s \<and> build_entries env es [] = Inr ss')"
  by (cases "build_entry env e"; cases "build_entries env es []")
    (auto simp: build_entries_acc [of env es "[_]"])

lemma build_entries_Inr:
  "build_entries env es [] = Inr ss \<longleftrightarrow> list_all2 (\<lambda>e s. build_entry env e = Inr s) es ss"
proof (induction es arbitrary: ss)
  case (Cons e es)
  show ?case
    unfolding build_entries_Cons Cons list_all2_Cons1 by auto
qed auto

text \<open>An exception is that of the first entry that cannot be built.\<close>

lemma build_entries_Inl:
  "build_entries env es [] = Inl x \<Longrightarrow>
     \<exists>pre e post ss. es = pre @ e # post \<and> build_entries env pre [] = Inr ss \<and> build_entry env e = Inl x"
proof (induction es)
  case (Cons e es)
  show ?case
  proof (cases "build_entry env e")
    case (Inl y)
    with Cons.prems have "e # es = [] @ e # es \<and> build_entries env [] [] = Inr [] \<and> build_entry env e = Inl x"
      by simp
    then show ?thesis by blast
  next
    case (Inr s)
    with Cons.prems have "build_entries env es [] = Inl x"
      by (cases "build_entries env es []") (simp_all add: build_entries_acc [of env es "[s]"])
    with Cons.IH obtain pre e' post ss where
      "es = pre @ e' # post" "build_entries env pre [] = Inr ss" "build_entry env e' = Inl x" by blast
    then have "e # es = (e # pre) @ e' # post \<and> build_entries env (e # pre) [] = Inr (s # ss) \<and>
        build_entry env e' = Inl x"
      using Inr by (simp add: build_entries_Cons del: build_entries.simps)
    then show ?thesis by blast
  qed
qed simp

lemma string_at_Inr [simp]: "string_at key v = Inr x \<longleftrightarrow> v = Some (Typed x)"
  by (auto simp: string_at_def at_key_def andthen_Inr_iff split: option.split)

text \<open>The root and the location of an entry that has both\<close>

fun root_of :: "location_entry typed \<Rightarrow> string" where
  "root_of t = (case t of Typed e \<Rightarrow> (case cfg_root e of Some (Typed x) \<Rightarrow> x | _ \<Rightarrow> []) | Mistyped \<Rightarrow> [])"

fun location_of :: "location_entry typed \<Rightarrow> string" where
  "location_of t = (case t of Typed e \<Rightarrow> (case cfg_location e of Some (Typed x) \<Rightarrow> x | _ \<Rightarrow> []) | Mistyped \<Rightarrow> [])"

definition location_complete :: "location_entry typed \<Rightarrow> bool" where
  "location_complete t \<longleftrightarrow> (\<exists>e root loc. t = Typed e \<and> cfg_root e = Some (Typed root) \<and> cfg_location e = Some (Typed loc))"

lemma build_locations_Inr:
  "build_locations srt es R = Inr R' \<longleftrightarrow>
     (\<forall>t \<in> set es. location_complete t) \<and>
     R' = foldl (\<lambda>R (root, loc). add srt loc (static_content root) R) R
       (map (\<lambda>t. (root_of t, location_of t)) es)"
proof (induction es arbitrary: R)
  case (Cons t es)
  show ?case
  proof (cases "location_complete t")
    case True
    then obtain e root loc where "t = Typed e" "cfg_root e = Some (Typed root)" "cfg_location e = Some (Typed loc)"
      by (auto simp: location_complete_def)
    then show ?thesis
      using Cons.IH [of "add srt loc (static_content root) R"] True by (simp add: string_at_def at_key_def)
  next
    case False
    then have "build_locations srt (t # es) R \<noteq> Inr R'"
      by (auto simp: andthen_Inr_iff location_complete_def)
    with False show ?thesis by simp
  qed
qed auto


lemma build_entry_Inr:
  assumes "build_entry env t = Inr (h, sv)"
  shows "\<exists>e. t = Typed e \<and> build_handler (env_sort env) e = Inr h \<and> sv = listening (cfg_ssl e \<noteq> None)"
  using assms by (auto simp: build_entry_def Let_def andthen_Inr_iff listen_Inr)

lemma start_servers_Config:
  "start_servers env (Config name cf) = Inr apps \<longleftrightarrow>
     (\<exists>es. cf = Json (Some es) \<and> list_all2 (\<lambda>e s. build_entry env e = Inr s) es apps)"
proof (cases cf)
  case (Json servers)
  show ?thesis
  proof (cases servers)
    case (Some es)
    then show ?thesis
      using Json build_entries_Inr [of env es apps]
      by (cases "build_entries env es []") (simp_all add: start_servers_def build_advanced_server_def at_key_def)
  qed (simp add: Json start_servers_def build_advanced_server_def at_key_def)
qed (simp_all add: start_servers_def build_advanced_server_def)

lemma start_servers_code: "start_servers env (Config name cf) = Inl code \<Longrightarrow> code = 1"
  by (cases "build_advanced_server env name cf []") (simp_all add: start_servers_def)

text \<open>The simple mode has one server, with the router of the directory.\<close>

lemma start_servers_Serve:
  "start_servers env (Serve root address port) = Inr apps \<longleftrightarrow>
     listen (env_net env) (to_string (value_or port 80)) (value_or address ''0.0.0.0'') (new_server False) = Inr (listening False) \<and>
     apps = [(Some (\<lambda>fsys. route fsys (simple_router (env_sort env) root)), listening False)]"
proof (cases "listen (env_net env) (to_string (value_or port 80)) (value_or address ''0.0.0.0'') (new_server False)")
  case (Inr sv)
  with listen_Inr have "sv = listening False" by blast
  with Inr show ?thesis by (auto simp: start_servers_def build_simple_server_def set_service_def)
qed (simp add: start_servers_def build_simple_server_def)

lemma build_handler_locations:
  assumes "build_handler srt entry = Inr h" "cfg_return entry = None" "cfg_locations entry = Some es"
  shows "h = Some (\<lambda>fsys. route fsys (resources_after srt
    (map (\<lambda>e. (location_of e, static_content (root_of e))) es)))"
proof -
  from assms have "h = Some (\<lambda>fsys. route fsys (locations_router srt
      (map (\<lambda>e. (root_of e, location_of e)) es)))"
    by (auto simp: build_handler_def andthen_Inr_iff build_locations_Inr set_service_def locations_router_def)
  then show ?thesis by (simp add: locations_router_eq comp_def)
qed


text \<open>A server whose entry has neither a \<open>return\<close> nor a \<open>locations\<close> section\<close>

lemma build_handler_none:
  assumes "build_handler srt entry = Inr h" "cfg_return entry = None" "cfg_locations entry = None"
  shows "h = None"
  using assms by (simp add: build_handler_def)

lemma built_listening:
  assumes "start_servers env (Config name cf) = Inr apps" "(h, sv) \<in> set apps"
  shows "\<exists>sec. sv = listening sec"
proof -
  from assms(1) obtain es where "list_all2 (\<lambda>e s. build_entry env e = Inr s) es apps"
    by (auto simp: start_servers_Config)
  moreover from assms(2) obtain k where "k < length apps" "apps ! k = (h, sv)"
    by (auto simp: in_set_conv_nth)
  ultimately have "build_entry env (es ! k) = Inr (h, sv)"
    by (simp add: list_all2_conv_all_nth)
  from build_entry_Inr [OF this] show ?thesis by blast
qed

lemma built_entry:
  assumes "start_servers env (Config name (Json (Some es))) = Inr apps" "k < length apps"
  shows "k < length es \<and> (\<exists>e. es ! k = Typed e \<and> build_handler (env_sort env) e = Inr (fst (apps ! k)))"
proof -
  from assms(1) have l: "list_all2 (\<lambda>e s. build_entry env e = Inr s) es apps"
    by (auto simp: start_servers_Config)
  with assms(2) have "k < length es" "build_entry env (es ! k) = Inr (fst (apps ! k), snd (apps ! k))"
    by (simp_all add: list_all2_conv_all_nth)
  with build_entry_Inr [of env "es ! k"] show ?thesis by blast
qed


text \<open>
  Such a server has an empty \<^verbatim>\<open>std::function\<close> as its handler: a request that can be parsed throws in the
  completion handler, so the client gets nothing, and only what is no request gets its 400 page.
\<close>

lemma unconfigured_throws:
  assumes "objects sv i = Some c"
    and "parse (conn_parser c) (conn_request c) bytes = Some (good, rest, p, r)"
    and "on_read None w i success bytes sv = Some (x, sv')"
  shows "x = Some Bad_function_call"
  using assms(3,1) by (rule on_read_cases) (use assms(2) in \<open>simp_all add: handle_request_def\<close>)

lemma unconfigured_never_answers:
  assumes "run None (listening sec) evs sv" "objects sv i = Some c" "sent c \<noteq> []"
  shows "prefix (sent c) (wire (stock_reply bad_request))"
  using run_sent [OF assms] by (auto simp: answers_def handle_request_def)

text \<open>
  A server with locations answers a request for a path from the root of the longest location that the path
  begins with, if one entry only has it.
\<close>

definition longest_location :: "location_entry typed list \<Rightarrow> location_entry typed \<Rightarrow> string \<Rightarrow> bool" where
  "longest_location locs l p \<longleftrightarrow> l \<in> set locs \<and> prefix (location_of l) p \<and>
     (\<forall>x \<in> set locs. prefix (location_of x) p \<longrightarrow> x = l \<or> length (location_of x) < length (location_of l))"

lemma configured_serves:
  assumes "std_sort srt" "build_handler srt entry = Inr h" "cfg_return entry = None" "cfg_locations entry = Some locs"
    and "url_decode (req_uri req) = (True, p)" "path_ok p" "routed_method req = ''GET''" "longest_location locs l p"
  shows "handle_request h fsys req rep = andthen (serve_static fsys (root_of l) (location_of l) p req rep) (\<lambda>(m, r). Inr r)"
proof -
  let ?adds = "map (\<lambda>e. (location_of e, static_content (root_of e))) locs"
  let ?e = "\<lambda>x. \<lparr>location = location_of x, entry_handler = static_content (root_of x)\<rparr>"
  have es: "set (entries_for (routed_method req) ?adds) = ?e ` set locs"
    by (auto simp: entries_for_def assms(7))
  have "route fsys (resources_after srt ?adds) req rep = andthen (serve_entry fsys (?e l) p req rep) (\<lambda>(m, r). Inr r)"
  proof (rule std_sort.route_only [OF assms(1,5,6)], unfold es)
    show "?e l \<in> ?e ` set locs" "takes (?e l) p"
      using assms(8) by (simp_all add: longest_location_def takes.simps)
    show "x = ?e l" if "x \<in> ?e ` set locs" "takes x p" "loc_len (?e l) \<le> loc_len x" for x
      using that assms(8) by (auto simp: longest_location_def takes.simps loc_len_def)
  qed
  then show ?thesis
    by (simp add: build_handler_locations [OF assms(2-4)] handle_request_def serve_entry.simps)
qed

text \<open>A server with locations reads nothing outside the roots of its locations.\<close>

lemma configured_confined:
  assumes "std_sort srt" "build_handler srt entry = Inr h" "cfg_return entry = None" "cfg_locations entry = Some es"
    and "\<And>e. e \<in> set es \<Longrightarrow> NUL \<notin> set (root_of e)"
    and "\<And>e t p. e \<in> set es \<Longrightarrow> below (root_of e) p \<Longrightarrow> f t p = g t p"
  shows "handle_request h f req rep = handle_request h g req rep"
proof -
  let ?adds = "map (\<lambda>e. (location_of e, static_content (root_of e))) es"
  have "route f (resources_after srt ?adds) req rep = route g (resources_after srt ?adds) req rep"
    by (rule resources_confined [OF assms(1)]) (use assms(5,6) in auto)
  then show ?thesis
    by (simp add: build_handler_locations [OF assms(2-4)] handle_request_def)
qed


text \<open>
  The handlers keep the contract of a service: with a \<open>return\<close> section that is free of line breaks, or
  with locations, or with nothing, what a server sends is safe.
\<close>

definition entry_safe :: "server_entry \<Rightarrow> bool" where
  "entry_safe entry \<longleftrightarrow> (\<forall>ret. cfg_return entry = Some (Typed ret) \<longrightarrow> section_ok (value_or (cfg_headers ret) []))"

definition static_only :: "(string \<times> handler) list \<Rightarrow> bool" where
  "static_only adds \<longleftrightarrow> (\<forall>(loc, h) \<in> set adds. \<exists>root. h = static_content root)"

lemma static_only_plain:
  assumes "std_sort srt" "static_only adds" "e \<in> set (entries_of (resources_after srt adds) m)"
  shows "entry_plain e"
  using assms(2,3)
  by (auto simp: std_sort.set_entries_of_resources [OF assms(1)] entries_for_def static_only_def split: handler.split)

interpretation return_promise: promising_service "set_service (\<lambda>fsys. return_handler st entries) None"
  "\<lambda>req rep. section_ok entries \<longrightarrow> reply_safe req rep" for st entries
  by unfold_locales (auto simp: set_service_def handle_request_def reply_safe_def dest: return_reply_safe)

interpretation locations_promise: promising_service "set_service (\<lambda>fsys. route fsys (resources_after srt adds)) None"
  "\<lambda>req rep. std_sort srt \<and> static_only adds \<longrightarrow> reply_safe req rep" for srt adds
  by unfold_locales
    (auto simp: set_service_def handle_request_def dest: static_only_plain intro!: route_reply_safe)

interpretation unconfigured_promise: promising_service None "\<lambda>req rep. False"
  by unfold_locales (simp add: handle_request_def)

lemma built_safe:
  assumes "std_sort srt" "entry_safe entry" "build_handler srt entry = Inr h"
    and "run h (listening sec) evs sv" "step h sv (Written i success n) sv'"
  shows "\<exists>c rep. objects sv' i = Some c \<and> sent c = wire rep \<and> (rep = stock_reply bad_request \<or>
    (\<exists>rest s req. parse method_start empty_request (bytes_in i evs) = Some (good, rest, s, req) \<and> reply_safe req rep))"
proof (cases "cfg_return entry")
  case (Some t)
  with assms(3) obtain ret st where ret: "t = Typed ret"
    and "h = set_service (\<lambda>fsys. return_handler st (value_or (cfg_headers ret) [])) None"
    by (auto simp: build_handler_def build_return_def andthen_Inr_iff)
  with return_promise.written_promised [of st "value_or (cfg_headers ret) []"] assms(2,4,5) Some ret show ?thesis
    by (simp add: entry_safe_def)
next
  case None
  show ?thesis
  proof (cases "cfg_locations entry")
    case (Some es)
    let ?adds = "map (\<lambda>e. (location_of e, static_content (root_of e))) es"
    have "h = set_service (\<lambda>fsys. route fsys (resources_after srt ?adds)) None"
      using build_handler_locations [OF assms(3) None Some] by (simp add: set_service_def)
    moreover have "static_only ?adds" by (simp add: static_only_def)
    ultimately show ?thesis
      using locations_promise.written_promised [of srt ?adds] assms(1,4,5) by simp
  next
    case no: None
    with build_handler_none [OF assms(3) None] assms(4,5) unconfigured_promise.written_promised
    show ?thesis by blast
  qed
qed


subsection \<open>Examples of entries\<close>

definition quiet_network :: network where
  "quiet_network = \<lparr>net_resolve = (\<lambda>address port. Inr (address @ '':'' @ port, [])), net_throws = (\<lambda>c. None)\<rparr>"

definition quiet_environment :: environment where
  "quiet_environment = \<lparr>env_sort = insertion_sort, env_order = (\<lambda>ps. filter (\<lambda>p. p \<in> ps) [sslv2, sslv3, tlsv1, tlsv11, tlsv12, tlsv13]), env_tls = (\<lambda>c. None), env_net = quiet_network\<rparr>"

lemma listen_quiet: "listen (env_net quiet_environment) port address (new_server sec) = Inr (listening sec)"
  by (simp add: listen_Inr quiet_environment_def quiet_network_def)

definition bare_entry :: server_entry where
  "bare_entry = \<lparr>cfg_listen_address = Some (Typed ''0.0.0.0''), cfg_listen_port = None, cfg_ssl = None,
     cfg_return = None, cfg_locations = None\<rparr>"

definition gone_entry :: server_entry where
  "gone_entry = bare_entry\<lparr>cfg_return := Some (Typed \<lparr>cfg_status = Some (Typed ''not_found''), cfg_headers = None\<rparr>)\<rparr>"

definition gone_handler :: "file_history request_handler" where
  "gone_handler = Some (\<lambda>fsys. return_handler not_found [])"

lemma build_handler_gone: "build_handler srt gone_entry = Inr gone_handler"
proof -
  have "status_from_string ''not_found'' = Inr not_found" by code_simp
  then show ?thesis
    by (simp add: build_handler_def gone_entry_def value_or_def build_return_def set_service_def gone_handler_def)
qed

lemma build_entry_gone: "build_entry quiet_environment (Typed gone_entry) = Inr (gone_handler, listening False)"
proof -
  have "build_handler (env_sort quiet_environment) gone_entry = Inr gone_handler"
    by (rule build_handler_gone)
  moreover have "cfg_listen_address gone_entry = Some (Typed ''0.0.0.0'')" "cfg_ssl gone_entry = None"
    "cfg_listen_port gone_entry = None"
    by (simp_all add: gone_entry_def bare_entry_def)
  ultimately show ?thesis
    by (simp add: build_entry_def string_at_def at_key_def build_tls_def listen_quiet)
qed

lemma start_gone:
  "start_servers quiet_environment (Config name (Json (Some [Typed gone_entry]))) = Inr [(gone_handler, listening False)]"
  using build_entry_gone by (simp add: start_servers_Config)

text \<open>Two locations, of which the longer is inside the other\<close>

definition site_location :: "string \<Rightarrow> string \<Rightarrow> location_entry typed" where
  "site_location loc root = Typed \<lparr>cfg_root = Some (Typed root), cfg_location = Some (Typed loc)\<rparr>"

definition site_entry :: server_entry where
  "site_entry = bare_entry\<lparr>cfg_locations := Some [site_location ''/'' ''/srv'', site_location ''/doc'' ''/usr/doc'']\<rparr>"

lemma site_location_simps [simp]:
  "location_of (site_location loc root) = loc" "root_of (site_location loc root) = root"
  "location_complete (site_location loc root)"
  by (simp_all add: site_location_def location_complete_def)

lemma site_entry_simps [simp]:
  "cfg_return site_entry = None" "cfg_locations site_entry = Some [site_location ''/'' ''/srv'', site_location ''/doc'' ''/usr/doc'']"
  by (simp_all add: site_entry_def bare_entry_def)

lemma start_site:
  obtains h where "build_handler insertion_sort site_entry = Inr h"
    "start_servers quiet_environment (Config name (Json (Some [Typed site_entry]))) = Inr [(h, listening False)]"
proof -
  obtain h where h: "build_handler insertion_sort site_entry = Inr h"
    by (simp add: build_handler_def build_locations_Inr andthen_Inr_iff del: root_of.simps location_of.simps build_locations.simps)
  moreover have "cfg_listen_address site_entry = Some (Typed ''0.0.0.0'')" "cfg_ssl site_entry = None"
    "cfg_listen_port site_entry = None" "env_sort quiet_environment = insertion_sort"
    by (simp_all add: site_entry_def bare_entry_def quiet_environment_def)
  ultimately have "build_entry quiet_environment (Typed site_entry) = Inr (h, listening False)"
    by (simp add: build_entry_def string_at_def at_key_def build_tls_def listen_quiet)
  with h that show thesis by (simp add: start_servers_Config)
qed


subsection \<open>Properties\<close>

text \<open>
  C25 (configured_servers): the program starts from a configuration file exactly when the file is there,
  is a JSON object, has the key \<open>servers\<close>, and every entry of it can be built; then there is one server for each
  entry, in the order of the file. If any entry fails none is started, and the exit code is 1.
\<close>

theorem configured_servers:
  "(start_servers env (Config name cf) = Inr apps \<longleftrightarrow>
      (\<exists>es. cf = Json (Some es) \<and> list_all2 (\<lambda>e s. build_entry env e = Inr s) es apps)) \<and>
   ((\<nexists>es. cf = Json (Some es) \<and> (\<forall>e \<in> set es. \<exists>s. build_entry env e = Inr s)) \<longleftrightarrow>
      start_servers env (Config name cf) = Inl 1)"
proof (rule conjI [OF start_servers_Config], goal_cases)
  case 1
  show ?case
  proof (cases "start_servers env (Config name cf)")
    case (Inl code)
    have "\<not> (\<forall>e \<in> set es. \<exists>s. build_entry env e = Inr s)" if cf: "cf = Json (Some es)" for es
    proof
      assume "\<forall>e \<in> set es. \<exists>s. build_entry env e = Inr s"
      then obtain f where f: "\<forall>e \<in> set es. build_entry env e = Inr (f e)" by metis
      have "list_all2 (\<lambda>e s. build_entry env e = Inr s) es (map f es)"
        using f by (simp add: list.rel_map list.rel_refl_strong)
      with cf Inl show False by (metis start_servers_Config sum.distinct(1))
    qed
    with Inl start_servers_code [OF Inl] show ?thesis by blast
  next
    case (Inr apps')
    then obtain es where "cf = Json (Some es)" "list_all2 (\<lambda>e s. build_entry env e = Inr s) es apps'"
      by (auto simp: start_servers_Config)
    with Inr show ?thesis by (auto simp: list_all2_conv_all_nth in_set_conv_nth)
  qed
qed

theorem configured_servers_witness:
  "start_servers quiet_environment (Config ''f16.json'' (Json (Some [Typed gone_entry]))) = Inr [(gone_handler, listening False)] \<and>
   start_servers quiet_environment
     (Config ''f16.json'' (Json (Some [Typed gone_entry, Typed (bare_entry\<lparr>cfg_listen_port := Some Mistyped\<rparr>)]))) = Inl 1"
proof
  show "start_servers quiet_environment (Config ''f16.json'' (Json (Some [Typed gone_entry]))) = Inr [(gone_handler, listening False)]"
    using configured_servers [of quiet_environment "''f16.json''" "Json (Some [Typed gone_entry])"] build_entry_gone by simp
  have "build_entry quiet_environment (Typed (bare_entry\<lparr>cfg_listen_port := Some Mistyped\<rparr>)) = Inl Json_error"
    by (simp add: build_entry_def string_at_def at_key_def bare_entry_def)
  then show "start_servers quiet_environment
     (Config ''f16.json'' (Json (Some [Typed gone_entry, Typed (bare_entry\<lparr>cfg_listen_port := Some Mistyped\<rparr>)]))) = Inl 1"
    using configured_servers [of quiet_environment "''f16.json''"
        "Json (Some [Typed gone_entry, Typed (bare_entry\<lparr>cfg_listen_port := Some Mistyped\<rparr>)])"] by simp
qed

end
