(* ===== verification/Request_Verdict.thy ===== *)
theory Request_Verdict
  imports Request_Grammar
begin

section \<open>What the verdicts of the parser mean\<close>

text \<open>
  The grammar says which inputs are requests; this theory says when the parser must wait and when it may
  reject. An input is viable if something can follow it such that a request results. The parser waits
  exactly on the viable inputs that are no requests yet, and it rejects at the first byte that makes the input
  not viable: neither later, so that no client waits in vain, nor earlier.

  The proof gives, for each state of the parser, a text that completes the request (\<open>completion\<close>).
\<close>

definition starts_with :: "http_request \<Rightarrow> string \<Rightarrow> bool" where
  "starts_with req inp \<longleftrightarrow> (\<exists>m u vmaj vmin ls rest. method_ok m \<and> uri_ok u \<and> number_ok vmaj \<and>
     number_ok vmin \<and> version_fits vmaj \<and> version_fits vmin \<and> lines_ok False ls \<and>
     inp = request_text m u vmaj vmin ls @ rest \<and>
     req = request_of m u (int (decimal vmaj)) (int (decimal vmin)) ls)"

definition starts_with_request :: "string \<Rightarrow> bool" where
  "starts_with_request inp \<longleftrightarrow> (\<exists>req. starts_with req inp)"

definition viable :: "string \<Rightarrow> bool" where
  "viable inp \<longleftrightarrow> (\<exists>cs. starts_with_request (inp @ cs))"

definition overlong :: "string \<Rightarrow> bool" where
  "overlong inp \<longleftrightarrow> overlong_major inp \<or> overlong_minor inp"

lemma starts_with_iff:
  "starts_with req inp \<longleftrightarrow> (\<exists>rest s. parse method_start empty_request inp = Some (good, rest, s, req))"
  unfolding starts_with_def parse_good_iff by blast

lemma starts_with_request_iff:
  "starts_with_request inp \<longleftrightarrow> (\<exists>rest s r. parse method_start empty_request inp = Some (good, rest, s, r))"
  unfolding starts_with_request_def starts_with_iff by blast

lemma overlong_iff: "overlong inp \<longleftrightarrow> parse method_start empty_request inp = None"
  by (simp add: overlong_def parse_undefined)

lemma starts_with_request_append: "starts_with_request inp \<Longrightarrow> starts_with_request (inp @ cs)"
  by (auto simp: starts_with_request_iff parse_append)

text \<open>
  The parser stops at the empty line: whatever body follows, its length announced or not, has no influence on the
  request, so a handler never sees the body of a POST or PUT request.
\<close>

lemma body_ignored:
  "parse method_start empty_request inp = Some (good, rest, s, r) \<Longrightarrow>
     parse method_start empty_request (inp @ body) = Some (good, rest @ body, s, r)"
  by (simp add: parse_append)

lemma request_viable: "starts_with_request inp \<Longrightarrow> viable inp"
  unfolding viable_def by (rule exI [of _ "[]"]) simp

lemma viable_prefix: "viable (inp @ cs) \<Longrightarrow> viable inp"
  by (auto simp: viable_def)


subsection \<open>The text that completes a request\<close>

definition version_end :: string where
  "version_end = CR # LF # CR # LF # []"

fun completion :: "parser_state \<Rightarrow> string" where
  "completion method_start = ''G / HTTP/1.0'' @ version_end"
| "completion method_s = '' / HTTP/1.0'' @ version_end"
| "completion uri_s = '' HTTP/1.0'' @ version_end"
| "completion http_version_h = ''HTTP/1.0'' @ version_end"
| "completion http_version_t_1 = ''TTP/1.0'' @ version_end"
| "completion http_version_t_2 = ''TP/1.0'' @ version_end"
| "completion http_version_p = ''P/1.0'' @ version_end"
| "completion http_version_slash = ''/1.0'' @ version_end"
| "completion http_version_major_start = ''1.0'' @ version_end"
| "completion http_version_major_s = ''.0'' @ version_end"
| "completion http_version_minor_start = ''0'' @ version_end"
| "completion http_version_minor_s = version_end"
| "completion expecting_newline_1 = LF # CRLF"
| "completion header_line_start = CRLF"
| "completion header_lws = version_end"
| "completion header_name = CHR '':'' # SP # version_end"
| "completion space_before_header_value = SP # version_end"
| "completion header_value = version_end"
| "completion expecting_newline_2 = LF # CRLF"
| "completion expecting_newline_3 = [LF]"

text \<open>The numbers that have no digit yet are zero.\<close>

definition fresh_versions :: "parser_state \<Rightarrow> http_request \<Rightarrow> bool" where
  "fresh_versions s r \<longleftrightarrow> (s = http_version_major_start \<longrightarrow> http_version_major r = 0) \<and>
     (s \<in> {http_version_major_start, http_version_major_s, http_version_minor_start} \<longrightarrow>
        http_version_minor r = 0)"

lemma fresh_start [simp]: "fresh_versions method_start r"
  by (simp add: fresh_versions_def)

lemma consume_fresh:
  "fresh_versions s r \<Longrightarrow> consume s r c = Some (v, s', r') \<Longrightarrow> fresh_versions s' r'"
  by (cases s)
    (auto simp: fresh_versions_def step_simps back_name_push_def back_value_push_def
      bind_eq_Some_conv split: if_splits)

lemma parse_fresh:
  "parse s r xs = Some (v, rest, s', r') \<Longrightarrow> fresh_versions s r \<Longrightarrow> fresh_versions s' r'"
  by (induction xs arbitrary: s r) (auto simp: bind_eq_Some_conv split: if_splits dest: consume_fresh)

lemma completion_chars [char_class]:
  "token_char (CHR ''G'')" "field_char (CHR ''/'')" "CHR ''/'' \<noteq> SP" "digit_char_p (CHR ''1'')"
  "digit_char_p (CHR ''0'')" "CR \<noteq> SP" "CR \<noteq> CHR '':''" "CHR ''.'' \<noteq> CR"
  by code_simp+

lemma push_digit_fresh: "push_digit 0 (CHR ''0'') = Some 0" "push_digit 0 (CHR ''1'') = Some 1"
  by code_simp+

lemma completion_good:
  assumes "parser_inv s r" "fresh_versions s r"
  shows "\<exists>r'. parse s r (completion s) = Some (good, [], expecting_newline_3, r')"
  using assms
  by (cases s)
    (simp_all add: version_end_def consume_defs char_class fresh_versions_def push_digit_fresh)

lemma waiting_viable:
  assumes "parse method_start empty_request inp = Some (indeterminate, rest, s, r)"
  shows "viable inp"
proof -
  have "parser_inv s r" "fresh_versions s r"
    using assms parse_inv parse_fresh by (blast intro: parser_inv_start fresh_start)+
  then obtain r' where "parse s r (completion s) = Some (good, [], expecting_newline_3, r')"
    using completion_good by blast
  with assms have "parse method_start empty_request (inp @ completion s) =
      Some (good, [], expecting_newline_3, r')"
    by (simp add: parse_append)
  then show ?thesis by (auto simp: viable_def starts_with_request_iff)
qed

lemma rejected_not_viable:
  "parse method_start empty_request inp = Some (bad, rest, s, r) \<Longrightarrow> \<not> viable inp"
  by (auto simp: viable_def starts_with_request_iff parse_append)

lemma viable_iff:
  "viable inp \<longleftrightarrow> (\<exists>v rest s r. v \<noteq> bad \<and> parse method_start empty_request inp = Some (v, rest, s, r))"
proof (cases "parse method_start empty_request inp")
  case None
  then show ?thesis by (auto simp: viable_def starts_with_request_iff parse_append)
next
  case (Some p)
  then obtain v rest s r where p: "parse method_start empty_request inp = Some (v, rest, s, r)"
    by (cases p) simp
  then show ?thesis
  proof (cases v)
    case good
    then have "starts_with_request inp" using p by (auto simp: starts_with_request_iff)
    then show ?thesis using p good request_viable by simp
  qed (auto dest: waiting_viable rejected_not_viable)
qed

lemma waiting_iff:
  "(\<exists>rest s r. parse method_start empty_request inp = Some (indeterminate, rest, s, r)) \<longleftrightarrow>
     viable inp \<and> \<not> starts_with_request inp"
proof (cases "parse method_start empty_request inp")
  case None
  then show ?thesis by (simp add: viable_iff)
next
  case (Some p)
  then show ?thesis
    by (cases p; cases "fst p") (simp_all add: viable_iff starts_with_request_iff)
qed

lemma parse_single_bad:
  "parse s r [c] = Some (bad, rest, s', r') \<Longrightarrow> consume s r c = Some (bad, s', r')"
  by (auto simp: bind_eq_Some_conv split: if_splits)

lemma rejected_iff_not_viable:
  "(\<exists>rest s r. parse method_start empty_request inp = Some (bad, rest, s, r)) \<longleftrightarrow>
     \<not> viable inp \<and> \<not> overlong inp"
proof (cases "parse method_start empty_request inp")
  case None
  then show ?thesis by (simp add: overlong_iff)
next
  case (Some p)
  then show ?thesis by (cases p; cases "fst p") (simp_all add: viable_iff overlong_iff)
qed

text \<open>The first byte that rules out every request\<close>

lemma rejecting_byte:
  "parse s r xs = Some (bad, rest, s', r') \<Longrightarrow>
     \<exists>pre c s1 r1. xs = pre @ c # rest \<and> parse s r pre = Some (indeterminate, [], s1, r1) \<and>
       consume s1 r1 c = Some (bad, s', r')"
proof (induction xs arbitrary: s r)
  case (Cons x xs)
  obtain v s2 r2 where c: "consume s r x = Some (v, s2, r2)"
    using Cons.prems by (auto simp: bind_eq_Some_conv)
  show ?case
  proof (cases "v = indeterminate")
    case True
    with Cons.prems c have "parse s2 r2 xs = Some (bad, rest, s', r')" by simp
    from Cons.IH [OF this] obtain pre d s1 r1 where "xs = pre @ d # rest"
      "parse s2 r2 pre = Some (indeterminate, [], s1, r1)" "consume s1 r1 d = Some (bad, s', r')" by blast
    then show ?thesis
      using c True by (intro exI [of _ "x # pre"] exI [of _ d] exI [of _ s1] exI [of _ r1]) simp
  next
    case False
    then have "v = bad" "xs = rest" "s2 = s'" "r2 = r'"
      using Cons.prems c by (cases v; simp)+
    then show ?thesis
      using c by (intro exI [of _ "[]"] exI [of _ x] exI [of _ s] exI [of _ r]) simp
  qed
qed simp

lemma rejected_iff:
  "(\<exists>s r. parse method_start empty_request inp = Some (bad, rest, s, r)) \<longleftrightarrow>
     (\<exists>pre c. inp = pre @ c # rest \<and> viable pre \<and> \<not> viable (pre @ [c]) \<and> \<not> overlong (pre @ [c]))"
  (is "?rejected \<longleftrightarrow> ?first")
proof
  assume ?rejected
  then obtain s r where "parse method_start empty_request inp = Some (bad, rest, s, r)" by blast
  from rejecting_byte [OF this] obtain pre c s1 r1 where inp: "inp = pre @ c # rest"
    and pre: "parse method_start empty_request pre = Some (indeterminate, [], s1, r1)"
    and c: "consume s1 r1 c = Some (bad, s, r)" by blast
  from pre c have "parse method_start empty_request (pre @ [c]) = Some (bad, [], s, r)"
    by (simp add: parse_append)
  then show ?first
    using inp waiting_viable [OF pre] rejected_not_viable overlong_iff by fastforce
next
  assume ?first
  then obtain pre c where inp: "inp = pre @ c # rest" and v: "viable pre" "\<not> viable (pre @ [c])"
    and o: "\<not> overlong (pre @ [c])" by blast
  have "\<not> starts_with_request pre"
    using v(2) starts_with_request_append request_viable by blast
  with v(1) obtain s1 r1 where pre: "parse method_start empty_request pre = Some (indeterminate, [], s1, r1)"
    using waiting_iff parse_indeterminate by blast
  from o v(2) obtain s r where "parse method_start empty_request (pre @ [c]) = Some (bad, [], s, r)"
    using pre by (auto simp: overlong_iff viable_iff parse_append bind_eq_Some_conv split: if_splits)
  then have "consume s1 r1 c = Some (bad, s, r)"
    using pre by (auto simp: parse_append simp del: parse.simps dest: parse_single_bad)
  with pre inp show ?rejected
    by (simp add: parse_append)
qed


subsection \<open>Properties\<close>

text \<open>
  C12 (parser_verdicts): the parser asks for more input exactly when the input is not a request yet and can
  become one; it rejects exactly at the first byte after which no continuation of the input is a
  request, unless that byte makes a version number overlong.
\<close>

theorem parser_verdicts:
  "((\<exists>rest s r. parse method_start empty_request inp = Some (indeterminate, rest, s, r)) \<longleftrightarrow>
      viable inp \<and> \<not> starts_with_request inp) \<and>
   ((\<exists>s r. parse method_start empty_request inp = Some (bad, rest, s, r)) \<longleftrightarrow>
      (\<exists>pre c. inp = pre @ c # rest \<and> viable pre \<and> \<not> viable (pre @ [c]) \<and> \<not> overlong (pre @ [c])))"
  by (rule conjI [OF waiting_iff rejected_iff])

end
