(* ===== verification/Connection_Spec.thy ===== *)
theory Connection_Spec
  imports Connection_Runs Request_Verdict
begin

section \<open>What a connection does, seen from the client\<close>

text \<open>
  An abstract specification of a connection. Its state is an exchange: how far it has come, what the
  client has written and what it has read. The rules mention neither a parser and its states nor buffers,
  the connection manager or other connections, only the grammar of requests. The server implements it in both
  directions: every run of a server, seen from one connection, is a run of the specification, and in every
  reachable state the next events of a connection are exactly those that the specification allows.
\<close>

datatype phase = Greeting | Receiving | Answering reply | Abandoned | Closed

record exchange =
  ex_phase :: phase
  ex_input :: string
  ex_output :: string

text \<open>
  One event, for connection \<open>i\<close>, which is \<open>None\<close> until it is accepted. An exception \<open>x\<close> that the handler
  throws and an operation that asio aborts leave it abandoned: open, with nothing to wait for.
\<close>

definition after_error :: "error_code \<Rightarrow> phase" where
  "after_error ec = (if ec = operation_aborted then Abandoned else Closed)"

inductive spec_step :: "'w request_handler \<Rightarrow> bool \<Rightarrow> nat \<Rightarrow>
    exchange option \<Rightarrow> 'w event \<Rightarrow> exchange option \<Rightarrow> bool" for rh sec i where
  spec_connects: "spec_step rh sec i None (Accepted success)
     (Some \<lparr>ex_phase = (if sec then Greeting else Receiving), ex_input = [], ex_output = []\<rparr>)"
| spec_greeted: "spec_step rh sec i
     (Some \<lparr>ex_phase = Greeting, ex_input = inp, ex_output = out\<rparr>) (Handshaken i ec)
     (Some \<lparr>ex_phase = (if ec = success then Receiving else Closed), ex_input = inp, ex_output = out\<rparr>)"
| spec_waits: "length bytes \<le> 8192 \<Longrightarrow> viable (inp @ bytes) \<Longrightarrow> \<not> starts_with_request (inp @ bytes) \<Longrightarrow>
     spec_step rh sec i
     (Some \<lparr>ex_phase = Receiving, ex_input = inp, ex_output = out\<rparr>) (Received i success bytes w None)
     (Some \<lparr>ex_phase = Receiving, ex_input = inp @ bytes, ex_output = out\<rparr>)"
| spec_answers: "length bytes \<le> 8192 \<Longrightarrow> starts_with req (inp @ bytes) \<Longrightarrow>
     handle_request rh w req empty_reply = Inr rep \<Longrightarrow>
     spec_step rh sec i
     (Some \<lparr>ex_phase = Receiving, ex_input = inp, ex_output = out\<rparr>) (Received i success bytes w None)
     (Some \<lparr>ex_phase = Answering rep, ex_input = inp @ bytes, ex_output = out\<rparr>)"
| spec_throws: "length bytes \<le> 8192 \<Longrightarrow> starts_with req (inp @ bytes) \<Longrightarrow>
     handle_request rh w req empty_reply = Inl x \<Longrightarrow>
     spec_step rh sec i
     (Some \<lparr>ex_phase = Receiving, ex_input = inp, ex_output = out\<rparr>) (Received i success bytes w (Some x))
     (Some \<lparr>ex_phase = Abandoned, ex_input = inp @ bytes, ex_output = out\<rparr>)"
| spec_rejects: "length bytes \<le> 8192 \<Longrightarrow> \<not> viable (inp @ bytes) \<Longrightarrow> \<not> overlong (inp @ bytes) \<Longrightarrow>
     spec_step rh sec i
     (Some \<lparr>ex_phase = Receiving, ex_input = inp, ex_output = out\<rparr>) (Received i success bytes w None)
     (Some \<lparr>ex_phase = Answering (stock_reply bad_request), ex_input = inp @ bytes, ex_output = out\<rparr>)"
| spec_loses: "length bytes \<le> 8192 \<Longrightarrow> ec \<noteq> success \<Longrightarrow>
     spec_step rh sec i
     (Some \<lparr>ex_phase = Receiving, ex_input = inp, ex_output = out\<rparr>) (Received i ec bytes w None)
     (Some \<lparr>ex_phase = after_error ec, ex_input = inp, ex_output = out\<rparr>)"
| spec_writes: "(ec = success \<longrightarrow> n = length (wire rep)) \<Longrightarrow>
     spec_step rh sec i
     (Some \<lparr>ex_phase = Answering rep, ex_input = inp, ex_output = out\<rparr>) (Written i ec n)
     (Some \<lparr>ex_phase = after_error ec, ex_input = inp, ex_output = take n (wire rep)\<rparr>)"
| spec_destroyed: "spec_step rh sec i v Destroyed (map_option (\<lambda>v. v\<lparr>ex_phase := Closed\<rparr>) v)"
| spec_elsewhere: "event_conn e \<noteq> Some i \<Longrightarrow> e \<noteq> Destroyed \<Longrightarrow> spec_step rh sec i v e v"

inductive spec_run :: "'w request_handler \<Rightarrow> bool \<Rightarrow> nat \<Rightarrow> 'w event list \<Rightarrow> exchange option \<Rightarrow> bool"
  for rh sec i where
  spec_Nil: "spec_run rh sec i [] None"
| spec_snoc: "spec_run rh sec i evs v \<Longrightarrow> spec_step rh sec i v e v' \<Longrightarrow> spec_run rh sec i (evs @ [e]) v'"

text \<open>The exchange of a connection in a state of the server\<close>

definition phase_of :: "connection \<Rightarrow> phase" where
  "phase_of c = (if \<not> socket_open c then Closed
     else case pending c of Some Handshake \<Rightarrow> Greeting | Some Read \<Rightarrow> Receiving
       | Some Write \<Rightarrow> Answering (conn_reply c) | None \<Rightarrow> Abandoned)"

definition exchange_of :: "connection \<Rightarrow> exchange" where
  "exchange_of c = \<lparr>ex_phase = phase_of c, ex_input = received c, ex_output = sent c\<rparr>"

definition view_of :: "nat \<Rightarrow> server \<Rightarrow> exchange option" where
  "view_of i sv = map_option exchange_of (objects sv i)"


subsection \<open>Every step of the server is one of the specification\<close>

lemma step_secure: "step rh sv e sv' \<Longrightarrow> secure sv' = secure sv"
proof (induction rule: step.induct)
  case (step_read sv i bytes w ec x sv')
  then obtain c where "objects sv i = Some c" by (auto simp: has_pending_def)
  with step_read(3) show ?case
    by (rule on_read_cases) (simp_all add: completion_defs update_object_def)
qed (simp_all add: on_accept_def on_handshake_def on_write_def create_connection_def manager_start_def
    conn_start_def do_accept_def completion_defs update_object_def destroy_def stop_all_def)

lemma run_secure: "run rh sv evs sv' \<Longrightarrow> secure sv' = secure sv"
  by (induction rule: run.induct) (simp_all add: step_secure)

text \<open>A parser that has waited continues as one that gets all of the input at once.\<close>

lemma awaiting_parse:
  "awaiting c \<Longrightarrow> parse (conn_parser c) (conn_request c) bytes =
     parse method_start empty_request (received c @ bytes)"
  by (simp add: awaiting_def parse_append)

lemma reading_awaits:
  assumes "server_inv rh sv" "objects sv i = Some c" "pending c = Some Read"
  shows "awaiting c"
  using server_inv_object(2) [OF assms(1,2)] assms(3) by (simp add: conn_inv_def)

lemma pending_open:
  assumes "server_inv rh sv" "objects sv i = Some c" "running sv" "pending c \<noteq> None"
  shows "socket_open c"
  using server_inv_object(3,4) [OF assms(1,2)] assms(3,4) by blast

lemma view_of_object: "objects sv i = Some c \<Longrightarrow> view_of i sv = Some (exchange_of c)"
  by (simp add: view_of_def)

lemma read_refines:
  assumes inv: "server_inv rh sv" and pend: "has_pending sv i Read" and len: "length bytes \<le> 8192"
    and r: "on_read rh w i ec bytes sv = Some (x, sv')"
  shows "spec_step rh sec i (view_of i sv) (Received i ec bytes w x) (view_of i sv')"
proof -
  obtain c where c: "objects sv i = Some c" "pending c = Some Read" and run: "running sv"
    using pend by (auto simp: has_pending_def)
  note aw = reading_awaits [OF inv c]
  have e: "conn_reply c = empty_reply" using aw by (simp add: awaiting_def)
  have o: "socket_open c" using pending_open [OF inv c(1) run] c(2) by simp
  have v: "view_of i sv = Some \<lparr>ex_phase = Receiving, ex_input = received c, ex_output = sent c\<rparr>"
    using c o by (simp add: view_of_def exchange_of_def phase_of_def)
  from r c(1) show ?thesis
  proof (cases rule: on_read_cases)
    case stopped
    then have "view_of i sv' = Some \<lparr>ex_phase = after_error ec, ex_input = received c, ex_output = sent c\<rparr>"
      using c by (simp add: view_of_def exchange_of_def phase_of_def after_error_def completion_defs)
    with v stopped len show ?thesis by (simp add: spec_loses)
  next
    case aborted
    then have "view_of i sv' = Some \<lparr>ex_phase = after_error ec, ex_input = received c, ex_output = sent c\<rparr>"
      using c o by (simp add: view_of_def exchange_of_def phase_of_def after_error_def completion_defs)
    with v aborted len show ?thesis by (simp add: spec_loses)
  next
    case (more_input rest p r)
    then have "viable (received c @ bytes) \<and> \<not> starts_with_request (received c @ bytes)"
      unfolding waiting_iff [symmetric] awaiting_parse [OF aw] by blast
    moreover have "view_of i sv' =
        Some \<lparr>ex_phase = Receiving, ex_input = received c @ bytes, ex_output = sent c\<rparr>"
      using more_input c o by (simp add: view_of_def exchange_of_def phase_of_def after_read_def)
    ultimately show ?thesis using v more_input len by (simp add: spec_waits)
  next
    case (replied rest p r rep)
    then have "starts_with r (received c @ bytes)"
      unfolding starts_with_iff awaiting_parse [OF aw] by blast
    moreover have "view_of i sv' =
        Some \<lparr>ex_phase = Answering rep, ex_input = received c @ bytes, ex_output = sent c\<rparr>"
      using replied c o by (simp add: view_of_def exchange_of_def phase_of_def after_read_def)
    ultimately show ?thesis using v replied len e by (simp add: spec_answers)
  next
    case (raised rest p r exn)
    then have "starts_with r (received c @ bytes)"
      unfolding starts_with_iff awaiting_parse [OF aw] by blast
    moreover have "view_of i sv' =
        Some \<lparr>ex_phase = Abandoned, ex_input = received c @ bytes, ex_output = sent c\<rparr>"
      using raised c o by (simp add: view_of_def exchange_of_def phase_of_def after_read_def)
    ultimately show ?thesis using v raised len e by (simp add: spec_throws)
  next
    case (rejected rest p r)
    then have "\<not> viable (received c @ bytes) \<and> \<not> overlong (received c @ bytes)"
      unfolding rejected_iff_not_viable [symmetric] awaiting_parse [OF aw] by blast
    moreover have "view_of i sv' = Some \<lparr>ex_phase = Answering (stock_reply bad_request),
        ex_input = received c @ bytes, ex_output = sent c\<rparr>"
      using rejected c o by (simp add: view_of_def exchange_of_def phase_of_def after_read_def)
    ultimately show ?thesis using v rejected len by (simp add: spec_rejects)
  qed
qed

lemma handshake_refines:
  assumes inv: "server_inv rh sv" and pend: "has_pending sv i Handshake"
  shows "spec_step rh sec i (view_of i sv) (Handshaken i ec) (view_of i (on_handshake i ec sv))"
proof -
  obtain c where c: "objects sv i = Some c" "pending c = Some Handshake" and run: "running sv"
    using pend by (auto simp: has_pending_def)
  have o: "socket_open c" using pending_open [OF inv c(1) run] c(2) by simp
  have "view_of i sv = Some \<lparr>ex_phase = Greeting, ex_input = received c, ex_output = sent c\<rparr>"
    "view_of i (on_handshake i ec sv) = Some \<lparr>ex_phase = (if ec = success then Receiving else Closed),
       ex_input = received c, ex_output = sent c\<rparr>"
    using c o by (simp_all add: view_of_def exchange_of_def phase_of_def on_handshake_def completion_defs)
  then show ?thesis by (simp only: spec_greeted)
qed

lemma write_refines:
  assumes inv: "server_inv rh sv" and pend: "has_pending sv i Write"
    and n: "ec = success \<longrightarrow> (\<forall>c. objects sv i = Some c \<longrightarrow> n = length (wire (conn_reply c)))"
  shows "spec_step rh sec i (view_of i sv) (Written i ec n) (view_of i (on_write i ec n sv))"
proof -
  obtain c where c: "objects sv i = Some c" "pending c = Some Write" and run: "running sv"
    using pend by (auto simp: has_pending_def)
  have o: "socket_open c" using pending_open [OF inv c(1) run] c(2) by simp
  have "view_of i sv = Some \<lparr>ex_phase = Answering (conn_reply c), ex_input = received c, ex_output = sent c\<rparr>"
    "view_of i (on_write i ec n sv) = Some \<lparr>ex_phase = after_error ec, ex_input = received c,
       ex_output = take n (wire (conn_reply c))\<rparr>"
    using c o
    by (simp_all add: view_of_def exchange_of_def phase_of_def on_write_def after_error_def completion_defs)
  with n c(1) show ?thesis by (simp add: spec_writes)
qed

lemma accept_refines:
  assumes inv: "server_inv rh sv"
  shows "spec_step rh (secure sv) i (view_of i sv) (Accepted ec) (view_of i (on_accept ec sv))"
proof (cases "acceptor_open sv \<and> ec = success \<and> i = next_id sv")
  case True
  then have "objects sv i = None"
    using server_inv_object(1) [OF inv] by (cases "objects sv i") blast+
  then have "view_of i sv = None"
    "view_of i (on_accept ec sv) = Some \<lparr>ex_phase = (if secure sv then Greeting else Receiving),
       ex_input = [], ex_output = []\<rparr>"
    using True by (simp_all add: view_of_def exchange_of_def phase_of_def on_accept_def do_accept_def
        create_connection_def manager_start_def conn_start_def new_connection_def completion_defs)
  with True show ?thesis by (simp only: spec_connects)
next
  case False
  then have "view_of i (on_accept ec sv) = view_of i sv"
    by (auto simp: view_of_def on_accept_def do_accept_def create_connection_def manager_start_def
        conn_start_def completion_defs)
  then show ?thesis by (simp add: spec_elsewhere)
qed

lemma destroy_refines:
  assumes inv: "server_inv rh sv"
  shows "view_of i (destroy sv) = map_option (\<lambda>v. v\<lparr>ex_phase := Closed\<rparr>) (view_of i sv)"
proof (cases "objects sv i")
  case (Some c)
  with server_inv_object(3) [OF inv Some] show ?thesis
    by (simp add: view_of_def exchange_of_def phase_of_def destroy_def stop_all_def conn_stop_def)
qed (simp add: view_of_def destroy_def stop_all_def)

text \<open>The events of other connections\<close>

lemma step_elsewhere:
  assumes "step rh sv e sv'" "event_conn e = Some j" "j \<noteq> i"
  shows "objects sv' i = objects sv i"
  using assms
proof (induction rule: step.induct)
  case (step_read sv k bytes w ec x sv')
  then show ?case using on_read_frame(1) [OF step_read(3,1)] by simp
qed (simp_all add: on_handshake_def on_write_def completion_defs)

lemma step_refines:
  assumes st: "step rh sv e sv'" and inv: "server_inv rh sv"
  shows "spec_step rh (secure sv) i (view_of i sv) e (view_of i sv')"
proof (cases "\<exists>j. event_conn e = Some j \<and> j \<noteq> i")
  case True
  then obtain j where j: "event_conn e = Some j" "j \<noteq> i" by blast
  then have "e \<noteq> Destroyed" by auto
  with j show ?thesis
    using step_elsewhere [OF st j] by (simp add: view_of_def spec_elsewhere)
next
  case False
  with st inv show ?thesis
  proof (induction rule: step.induct)
    case (step_destroy sv)
    then show ?case by (simp add: destroy_refines spec_destroyed)
  qed (simp_all add: accept_refines handshake_refines read_refines write_refines)
qed

lemma view_listening [simp]: "view_of i (listening sec) = None"
  by (simp add: view_of_def listening_def do_accept_def)

lemma run_refines:
  "run rh sv evs sv' \<Longrightarrow> sv = listening sec \<Longrightarrow> spec_run rh sec i evs (view_of i sv')"
proof (induction rule: run.induct)
  case (run_snoc sv evs sv1 e sv2)
  have "secure sv1 = sec"
    using run_secure [OF run_snoc.hyps(1)] run_snoc.prems by (simp add: listening_def do_accept_def)
  then show ?case
    using spec_snoc [OF run_snoc.IH [OF run_snoc.prems]]
      step_refines [OF run_snoc.hyps(2), of i] run_inv [OF run_snoc.hyps(1)] listening_inv run_snoc.prems
    by blast
qed (simp add: spec_Nil)


subsection \<open>Every event that the specification allows can happen\<close>

lemma open_running:
  "run rh sv evs sv' \<Longrightarrow> sv = listening sec \<Longrightarrow> connections sv' \<noteq> {} \<Longrightarrow> running sv'"
proof (induction rule: run.induct)
  case (run_snoc sv evs sv1 e sv2)
  then show ?case
    using step_running [OF run_snoc.hyps(2)]
    by (cases "e = Destroyed") (auto simp: destroy_def stop_all_def)
qed (simp add: listening_def do_accept_def)

lemma phase_pending:
  assumes run: "run rh (listening sec) evs sv" and v: "view_of i sv = Some x"
    and "ex_phase x \<noteq> Closed" "ex_phase x \<noteq> Abandoned"
  obtains c opn where "objects sv i = Some c" "socket_open c" "pending c = Some opn" "has_pending sv i opn"
    "ex_phase x = (case opn of Handshake \<Rightarrow> Greeting | Read \<Rightarrow> Receiving | Write \<Rightarrow> Answering (conn_reply c))"
    "ex_input x = received c" "ex_output x = sent c"
proof -
  note inv = run_inv [OF run listening_inv]
  from v obtain c where c: "objects sv i = Some c" and x: "x = exchange_of c"
    by (auto simp: view_of_def)
  have o: "socket_open c" using assms(3) x by (simp add: exchange_of_def phase_of_def split: if_splits)
  then obtain opn where opn: "pending c = Some opn"
    using assms(4) x o by (cases "pending c") (simp_all add: exchange_of_def phase_of_def)
  have "running sv"
    using open_running [OF run refl] server_inv_object(3) [OF inv c] o by blast
  then have "has_pending sv i opn" using c opn by (simp add: has_pending_def)
  with c o opn x show thesis
    by (intro that [of c opn]) (auto simp: exchange_of_def phase_of_def split: operation.split)
qed

lemma read_enabled:
  assumes inv: "server_inv rh sv" and pend: "has_pending sv i Read" and len: "length bytes \<le> 8192"
    and ok: "ec = success \<Longrightarrow> \<not> overlong (received_by sv i @ bytes)"
  shows "\<exists>x sv'. step rh sv (Received i ec bytes w x) sv'"
proof -
  obtain c where c: "objects sv i = Some c" "pending c = Some Read"
    using pend by (auto simp: has_pending_def)
  have "on_read rh w i ec bytes sv \<noteq> None"
    using ok c by (simp add: on_read_undefined awaiting_parse [OF reading_awaits [OF inv c]]
        overlong_iff received_by_def)
  with pend len show ?thesis by auto
qed

text \<open>What the specification allows is determined by the event, the exception aside.\<close>

lemma request_unique: "starts_with req inp \<Longrightarrow> starts_with req' inp \<Longrightarrow> req = req'"
  by (auto simp: starts_with_iff)

lemma starts_with_verdict:
  "starts_with req inp \<Longrightarrow> starts_with_request inp \<and> viable inp \<and> \<not> overlong inp"
  using request_viable by (auto simp: starts_with_request_def starts_with_iff overlong_iff)

lemma viable_defined: "viable inp \<Longrightarrow> \<not> overlong inp"
  by (auto simp: viable_iff overlong_iff)

inductive_cases spec_receivedE: "spec_step rh sec i v (Received i ec bytes w x) v'"
inductive_cases spec_writtenE: "spec_step rh sec i v (Written i ec n) v'"
inductive_cases spec_handshakenE: "spec_step rh sec i v (Handshaken i ec) v'"

lemma spec_deterministic:
  assumes "spec_step rh sec i v (Received i ec bytes w x) v'"
    "spec_step rh sec i v (Received i ec bytes w y) v''"
  shows "x = y \<and> v' = v''"
  using assms
  by (elim spec_receivedE)
    (auto dest: request_unique starts_with_verdict simp: starts_with_request_def)


lemma spec_received_from:
  "spec_step rh sec i v (Received i ec bytes w x) v' \<Longrightarrow> length bytes \<le> 8192 \<and>
     (\<exists>y. v = Some y \<and> ex_phase y = Receiving \<and> (ec = success \<longrightarrow> \<not> overlong (ex_input y @ bytes)))"
  by (elim spec_receivedE) (auto dest: viable_defined starts_with_verdict)

lemma spec_written_from:
  "spec_step rh sec i v (Written i ec n) v' \<Longrightarrow> \<exists>y rep. v = Some y \<and> ex_phase y = Answering rep \<and>
     (ec = success \<longrightarrow> n = length (wire rep)) \<and>
     v' = Some \<lparr>ex_phase = after_error ec, ex_input = ex_input y, ex_output = take n (wire rep)\<rparr>"
  by (elim spec_writtenE) auto

lemma spec_handshaken_from:
  "spec_step rh sec i v (Handshaken i ec) v' \<Longrightarrow> \<exists>y. v = Some y \<and> ex_phase y = Greeting \<and>
     v' = Some \<lparr>ex_phase = (if ec = success then Receiving else Closed), ex_input = ex_input y,
       ex_output = ex_output y\<rparr>"
  by (elim spec_handshakenE) auto

lemma received_implements:
  assumes run: "run rh (listening sec) evs sv"
    and spec: "spec_step rh sec i (view_of i sv) (Received i ec bytes w x) v'"
  shows "\<exists>sv'. step rh sv (Received i ec bytes w x) sv' \<and> view_of i sv' = v'"
proof -
  note inv = run_inv [OF run listening_inv]
  from spec_received_from [OF spec] obtain y where y: "view_of i sv = Some y" "ex_phase y = Receiving"
    and len: "length bytes \<le> 8192" and ok: "ec = success \<longrightarrow> \<not> overlong (ex_input y @ bytes)" by blast
  obtain c opn where c: "objects sv i = Some c" "has_pending sv i opn" "ex_input y = received c"
    and opn: "ex_phase y =
      (case opn of Handshake \<Rightarrow> Greeting | Read \<Rightarrow> Receiving | Write \<Rightarrow> Answering (conn_reply c))"
    by (rule phase_pending [OF run y(1)]) (use y(2) in simp_all)
  have r: "opn = Read" using y(2) opn by (cases opn) simp_all
  have "ec = success \<Longrightarrow> \<not> overlong (received_by sv i @ bytes)"
    using ok c by (simp add: received_by_def)
  then obtain z sv' where st: "step rh sv (Received i ec bytes w z) sv'"
    using read_enabled [OF inv c(2) [unfolded r] len] by blast
  have "spec_step rh sec i (view_of i sv) (Received i ec bytes w z) (view_of i sv')"
    using step_refines [OF st inv, of i] run_secure [OF run] by (simp add: listening_def do_accept_def)
  with spec_deterministic [OF spec] have "x = z \<and> v' = view_of i sv'" by blast
  with st show ?thesis by blast
qed

lemma own_implements:
  assumes run: "run rh (listening sec) evs sv" and e: "event_conn e = Some i"
    and spec: "spec_step rh sec i (view_of i sv) e v'"
  shows "\<exists>sv'. step rh sv e sv' \<and> view_of i sv' = v'"
proof (cases e)
  case (Handshaken j ec)
  then have j: "j = i" using e by simp
  from spec_handshaken_from [OF spec [unfolded Handshaken j]] obtain y where
    y: "view_of i sv = Some y" "ex_phase y = Greeting" and v': "v' = Some \<lparr>ex_phase =
      (if ec = success then Receiving else Closed), ex_input = ex_input y, ex_output = ex_output y\<rparr>" by blast
  obtain c opn where c: "objects sv i = Some c" "socket_open c" "has_pending sv i opn"
    and f: "ex_input y = received c" "ex_output y = sent c" and opn: "ex_phase y =
      (case opn of Handshake \<Rightarrow> Greeting | Read \<Rightarrow> Receiving | Write \<Rightarrow> Answering (conn_reply c))"
    by (rule phase_pending [OF run y(1)]) (use y(2) in simp_all)
  have "opn = Handshake" using y(2) opn by (cases opn) simp_all
  moreover have "view_of i (on_handshake i ec sv) = v'"
    using c f v' by (simp add: view_of_def exchange_of_def phase_of_def on_handshake_def completion_defs)
  ultimately show ?thesis using c(3) by (auto simp: Handshaken j)
next
  case (Received j ec bytes w x)
  then show ?thesis using received_implements [OF run] spec e by simp
next
  case (Written j ec n)
  then have j: "j = i" using e by simp
  from spec_written_from [OF spec [unfolded Written j]] obtain y rep where
    y: "view_of i sv = Some y" "ex_phase y = Answering rep" and n: "ec = success \<longrightarrow> n = length (wire rep)"
    and v': "v' = Some \<lparr>ex_phase = after_error ec, ex_input = ex_input y, ex_output = take n (wire rep)\<rparr>"
    by blast
  obtain c opn where c: "objects sv i = Some c" "socket_open c" "has_pending sv i opn"
    and f: "ex_input y = received c" and opn: "ex_phase y =
      (case opn of Handshake \<Rightarrow> Greeting | Read \<Rightarrow> Receiving | Write \<Rightarrow> Answering (conn_reply c))"
    by (rule phase_pending [OF run y(1)]) (use y(2) in simp_all)
  have "opn = Write" "conn_reply c = rep" using y(2) opn by (cases opn; simp)+
  moreover from this have "view_of i (on_write i ec n sv) = v'"
    using c f v'
    by (simp add: view_of_def exchange_of_def phase_of_def on_write_def after_error_def completion_defs)
  ultimately show ?thesis using c n by (auto simp: Written j)
qed (use e in simp_all)


text \<open>
  An answer that is on its way is the one to the input: the handler computed it in the world of a read
  of this connection, or there is no request.
\<close>

definition answered :: "'w request_handler \<Rightarrow> nat \<Rightarrow> 'w event list \<Rightarrow> string \<Rightarrow> reply \<Rightarrow> bool" where
  "answered rh i evs inp rep \<longleftrightarrow>
     \<not> viable inp \<and> rep = stock_reply bad_request \<or>
     (\<exists>req bytes w. starts_with req inp \<and> Received i success bytes w None \<in> set evs \<and>
        handle_request rh w req empty_reply = Inr rep)"

lemma answered_reply:
  "starts_with req inp \<Longrightarrow> handle_request rh w req empty_reply = Inr rep \<Longrightarrow>
     Received i success bytes w None \<in> set evs \<Longrightarrow> answered rh i evs inp rep"
  unfolding answered_def by blast

lemma answered_more: "answered rh i evs inp rep \<Longrightarrow> answered rh i (evs @ [e]) inp rep"
  by (auto simp: answered_def)

lemma spec_step_answering:
  assumes "spec_step rh sec i v e v'" "v' = Some y" "ex_phase y = Answering rep"
  shows "v = v' \<or> answered rh i (evs @ [e]) (ex_input y) rep"
  using assms
proof (induction rule: spec_step.induct)
  case (spec_answers bytes req inp w rep' out)
  then show ?case by (auto intro: answered_reply)
next
  case (spec_rejects bytes inp out w)
  then show ?case by (auto simp: answered_def)
qed (auto simp: after_error_def split: if_splits)

lemma spec_run_answering:
  "spec_run rh sec i evs v \<Longrightarrow> v = Some y \<Longrightarrow> ex_phase y = Answering rep \<Longrightarrow>
     answered rh i evs (ex_input y) rep"
proof (induction arbitrary: y rule: spec_run.induct)
  case (spec_snoc evs v e v')
  from spec_step_answering [OF spec_snoc.hyps(2) spec_snoc.prems, of evs] show ?case
    using spec_snoc.IH [OF _ spec_snoc.prems(2)] spec_snoc.prems(1) answered_more by blast
qed simp

text \<open>A client that has sent the text of a request gets the reply of the handler to that request.\<close>

lemma service_gets_reply:
  assumes "method_ok m" "uri_ok u" "number_ok vmaj" "number_ok vmin"
    and "version_fits vmaj" "version_fits vmin" "lines_ok False ls"
    and "run rh (listening sec) evs sv" "bytes_in i evs = request_text m u vmaj vmin ls @ rest"
    and "step rh sv (Written i success n) sv'"
  shows "\<exists>bytes w rep c. Received i success bytes w None \<in> set evs \<and>
    handle_request rh w (request_of m u (int (decimal vmaj)) (int (decimal vmin)) ls) empty_reply = Inr rep \<and>
    objects sv' i = Some c \<and> sent c = wire rep \<and> \<not> socket_open c"
proof -
  let ?req = "request_of m u (int (decimal vmaj)) (int (decimal vmin)) ls"
  from assms(10) obtain c where c: "objects sv i = Some c" "pending c = Some Write" and "running sv"
    and n: "n = length (wire (conn_reply c))" and sv': "sv' = on_write i success n sv"
    by (auto simp: has_pending_def)
  have "socket_open c"
    using pending_open [OF run_inv [OF assms(8) listening_inv] c(1) \<open>running sv\<close>] c(2) by simp
  then have y: "view_of i sv = Some (exchange_of c)" "ex_phase (exchange_of c) = Answering (conn_reply c)"
    "ex_input (exchange_of c) = bytes_in i evs"
    using c run_received_bytes [OF assms(8) c(1)] by (simp_all add: view_of_def exchange_of_def phase_of_def)
  have req: "starts_with ?req (bytes_in i evs)"
    using assms(1-7,9) unfolding starts_with_def by blast
  have "answered rh i evs (bytes_in i evs) (conn_reply c)"
    using spec_run_answering [OF run_refines [OF assms(8) refl, of i] y(1,2)] y(3) by simp
  then obtain bytes w where "Received i success bytes w None \<in> set evs"
    "handle_request rh w ?req empty_reply = Inr (conn_reply c)"
    using starts_with_verdict [OF req] request_unique [OF req] by (auto simp: answered_def)
  moreover obtain c' where "objects sv' i = Some c'" "sent c' = wire (conn_reply c)" "\<not> socket_open c'"
    using c n by (auto simp: sv' on_write_def completion_defs)
  ultimately show ?thesis by blast
qed

lemma view_answered:
  "view_of 0 (answered_server rep) =
     Some \<lparr>ex_phase = Answering rep, ex_input = hello, ex_output = []\<rparr>"
  by (simp add: view_of_def exchange_of_def phase_of_def objects_answered after_read_def new_connection_def)






subsection \<open>Properties\<close>

text \<open>
  C2 (connection_refines): whatever clients do, every run of a server, seen from any one connection, is a run of
  the specification: what the client has written and read and how far the exchange has come change
  only as its rules say.
\<close>

theorem connection_refines:
  assumes "run rh (listening sec) evs sv"
  shows "spec_run rh sec i evs (view_of i sv)"
  using run_refines [OF assms refl] .

theorem connection_refines_witness:
  "spec_run nowhere False 0 [Accepted success, Received 0 success hello () None]
     (Some \<lparr>ex_phase = Answering (stock_reply not_found), ex_input = hello, ex_output = []\<rparr>)"
  using connection_refines [OF run_answered [OF handle_nowhere], of 0] by (simp add: view_answered)

text \<open>
  C3 (connection_implements): in every reachable state the server can do, for an event of a connection, all
  that the specification allows, and with the outcome it gives; so no request that the grammar makes
  complete, and no input that it rules out, is left without its answer by the server.
\<close>

theorem connection_implements:
  assumes "run rh (listening sec) evs sv" "event_conn e = Some i"
    and "spec_step rh sec i (view_of i sv) e v'"
  shows "\<exists>sv'. step rh sv e sv' \<and> view_of i sv' = v'"
  using own_implements [OF assms] .

theorem connection_implements_witness:
  "\<exists>sv'. step nowhere (answered_server (stock_reply not_found))
       (Written 0 success (length (wire (stock_reply not_found)))) sv' \<and>
     view_of 0 sv' = Some \<lparr>ex_phase = Closed, ex_input = hello, ex_output = wire (stock_reply not_found)\<rparr>"
proof -
  have "spec_step nowhere False 0 (view_of 0 (answered_server (stock_reply not_found)))
      (Written 0 success (length (wire (stock_reply not_found))))
      (Some \<lparr>ex_phase = after_error success, ex_input = hello,
         ex_output = take (length (wire (stock_reply not_found))) (wire (stock_reply not_found))\<rparr>)"
    unfolding view_answered by (rule spec_writes) simp
  from connection_implements [OF run_answered [OF handle_nowhere] _ this] show ?thesis
    by (simp add: after_error_def)
qed



end
