(* ===== verification/Process.thy ===== *)
theory Process
  imports Connection_Spec
begin

section \<open>A process with several servers (the loop of \<open>main\<close>)\<close>

text \<open>
  The program and the examples put one or several servers on one \<^verbatim>\<open>io_context\<close> and call \<^verbatim>\<open>run\<close> in a
  loop: an exception of a handler leaves \<^verbatim>\<open>run\<close>, is caught and printed, and \<^verbatim>\<open>run\<close> is called again; the
  loop ends when \<^verbatim>\<open>run\<close> returns, which it does when a signal has stopped the context or when no operation
  is outstanding. Then the servers are destroyed and the program exits with 0. The program waits for a
  signal (\<open>signal_wait\<close>), the examples do not.
\<close>

datatype control = In_run | Caught exn | Exited int

record 'w process =
  services :: "'w request_handler list"
  servers :: "server list"
  ioc_stopped :: bool
  signal_wait :: bool
  control :: control

datatype 'w process_event =
    On nat "'w event"
  | Signal
  | Print_and_retry
  | Return

text \<open>The exception that leaves a handler\<close>

fun event_exn :: "'w event \<Rightarrow> exn option" where
  "event_exn (Received i ec bytes w x) = x"
| "event_exn _ = None"

definition after_handler :: "'w event \<Rightarrow> control" where
  "after_handler e = (case event_exn e of Some x \<Rightarrow> Caught x | None \<Rightarrow> In_run)"

text \<open>A server without an outstanding operation, and a context whose \<^verbatim>\<open>run\<close> has nothing to wait for\<close>

definition out_of_operations :: "server \<Rightarrow> bool" where
  "out_of_operations sv \<longleftrightarrow> \<not> accepting sv \<and> (\<forall>c \<in> ran (objects sv). pending c = None)"

definition out_of_work :: "'w process \<Rightarrow> bool" where
  "out_of_work p \<longleftrightarrow> \<not> signal_wait p \<and> list_all out_of_operations (servers p)"

inductive pstep :: "'w process \<Rightarrow> 'w process_event \<Rightarrow> 'w process \<Rightarrow> bool" where
  pstep_handler: "control p = In_run \<Longrightarrow> \<not> ioc_stopped p \<Longrightarrow> k < length (servers p) \<Longrightarrow> e \<noteq> Destroyed \<Longrightarrow>
    step (services p ! k) (servers p ! k) e sv' \<Longrightarrow>
    pstep p (On k e) (p\<lparr>servers := (servers p)[k := sv'], control := after_handler e\<rparr>)"
| pstep_signal: "control p = In_run \<Longrightarrow> \<not> ioc_stopped p \<Longrightarrow> signal_wait p \<Longrightarrow>
    pstep p Signal (p\<lparr>ioc_stopped := True, signal_wait := False\<rparr>)"
| pstep_retry: "control p = Caught x \<Longrightarrow> pstep p Print_and_retry (p\<lparr>control := In_run\<rparr>)"
| pstep_return: "control p = In_run \<Longrightarrow> ioc_stopped p \<or> out_of_work p \<Longrightarrow>
    pstep p Return (p\<lparr>servers := map destroy (servers p), control := Exited 0\<rparr>)"

inductive prun :: "'w process \<Rightarrow> 'w process_event list \<Rightarrow> 'w process \<Rightarrow> bool" where
  prun_Nil: "prun p [] p"
| prun_snoc: "prun p evs p1 \<Longrightarrow> pstep p1 e p2 \<Longrightarrow> prun p (evs @ [e]) p2"

text \<open>The process when \<^verbatim>\<open>main\<close> enters its loop; \<open>sig\<close> tells whether it waits for a signal.\<close>

definition launched :: "bool \<Rightarrow> ('w request_handler \<times> server) list \<Rightarrow> 'w process" where
  "launched sig apps = \<lparr>services = map fst apps, servers = map snd apps, ioc_stopped = False,
     signal_wait = sig, control = In_run\<rparr>"

text \<open>
  The whole of a \<^verbatim>\<open>main\<close>: its set-up gives the exit code with which it ends at once, or the servers with which
  it enters the loop. \<open>main_runs\<close> are its states in the loop, \<open>main_returns\<close> the exit codes.
\<close>

type_synonym 'w start = "int + ('w request_handler \<times> server) list"

definition main_runs :: "bool \<Rightarrow> 'w start \<Rightarrow> 'w process_event list \<Rightarrow> 'w process \<Rightarrow> bool" where
  "main_runs sig start evs p \<longleftrightarrow> (\<exists>apps. start = Inr apps \<and> prun (launched sig apps) evs p)"

definition main_returns :: "bool \<Rightarrow> 'w start \<Rightarrow> 'w process_event list \<Rightarrow> int \<Rightarrow> bool" where
  "main_returns sig start evs code \<longleftrightarrow>
     start = Inl code \<and> evs = [] \<or> (\<exists>p. main_runs sig start evs p \<and> control p = Exited code)"


subsection \<open>Each server runs as if it were alone\<close>

text \<open>The events of one server\<close>

fun event_of :: "nat \<Rightarrow> 'w process_event \<Rightarrow> 'w event list" where
  "event_of k (On j e) = (if j = k then [e] else [])"
| "event_of k Return = [Destroyed]"
| "event_of k _ = []"

definition events_of :: "nat \<Rightarrow> 'w process_event list \<Rightarrow> 'w event list" where
  "events_of k evs = concat (map (event_of k) evs)"

lemma pstep_fixed:
  "pstep p e p' \<Longrightarrow> services p' = services p \<and> length (servers p') = length (servers p)"
  by (induction rule: pstep.induct) simp_all

lemma prun_fixed:
  "prun p evs p' \<Longrightarrow> services p' = services p \<and> length (servers p') = length (servers p)"
  by (induction rule: prun.induct) (auto dest: pstep_fixed)

text \<open>Until the end no server has been destroyed.\<close>

definition servers_alive :: "'w process \<Rightarrow> bool" where
  "servers_alive p \<longleftrightarrow> (\<forall>sv \<in> set (servers p). running sv \<longleftrightarrow> control p \<noteq> Exited 0)"

lemma destroy_not_running [simp]: "\<not> running (destroy sv)"
  by (simp add: destroy_def)

lemma pstep_alive: "pstep p e p' \<Longrightarrow> servers_alive p \<Longrightarrow> servers_alive p'"
proof (induction rule: pstep.induct)
  case (pstep_handler p k e sv')
  have "running sv'" using step_running [OF pstep_handler(5,4)] by blast
  moreover have "after_handler e \<noteq> Exited 0" by (simp add: after_handler_def split: option.split)
  ultimately show ?case
    using pstep_handler(1,6) by (auto simp: servers_alive_def dest!: set_update_subset_insert [THEN subsetD])
qed (auto simp: servers_alive_def)

text \<open>What happens to one server\<close>

lemma pstep_project:
  assumes "pstep p e p'" "servers_alive p" "k < length (servers p)"
  shows "run (services p ! k) (servers p ! k) (event_of k e) (servers p' ! k)"
  using assms
proof (induction rule: pstep.induct)
  case (pstep_handler p j e sv')
  show ?case
  proof (cases "j = k")
    case True
    then show ?thesis
      using run_snoc [OF run_Nil, of "services p ! k" "servers p ! k" e sv'] pstep_handler by simp
  next
    case False
    then show ?thesis by (simp add: run_Nil)
  qed
next
  case (pstep_return p)
  then have "running (servers p ! k)" by (simp add: servers_alive_def)
  from run_snoc [OF run_Nil step_destroy [OF this]] pstep_return show ?case by simp
qed (simp_all add: run_Nil)

lemma run_append: "run rh sv1 evs' sv2 \<Longrightarrow> run rh sv evs sv1 \<Longrightarrow> run rh sv (evs @ evs') sv2"
proof (induction rule: run.induct)
  case (run_snoc sv1 evs' sv2 e sv3)
  then show ?case using run.run_snoc [of rh sv "evs @ evs'" sv2 e sv3] by simp
qed simp

lemma prun_alive: "prun p evs p' \<Longrightarrow> servers_alive p \<Longrightarrow> servers_alive p'"
  by (induction rule: prun.induct) (auto dest: pstep_alive)

lemma prun_project:
  assumes "prun p evs p'" "servers_alive p" "k < length (servers p)"
  shows "run (services p ! k) (servers p ! k) (events_of k evs) (servers p' ! k)"
  using assms
proof (induction rule: prun.induct)
  case (prun_Nil p)
  then show ?case by (simp add: events_of_def run_Nil)
next
  case (prun_snoc p evs p1 e p2)
  have p1: "services p1 = services p" "k < length (servers p1)" "servers_alive p1"
    using prun_fixed [OF prun_snoc.hyps(1)] prun_alive [OF prun_snoc.hyps(1)] prun_snoc.prems by auto
  then have "run (services p ! k) (servers p1 ! k) (event_of k e) (servers p2 ! k)"
    using pstep_project [OF prun_snoc.hyps(2) p1(3,2)] by simp
  from run_append [OF this prun_snoc.IH [OF prun_snoc.prems]] show ?case by (simp add: events_of_def)
qed

lemma launched_alive: "\<forall>(rh, sv) \<in> set apps. running sv \<Longrightarrow> servers_alive (launched sig apps)"
  by (auto simp: servers_alive_def launched_def)


subsection \<open>The end of the process\<close>

definition process_inv :: "bool \<Rightarrow> 'w process_event list \<Rightarrow> 'w process \<Rightarrow> bool" where
  "process_inv sig evs p \<longleftrightarrow> (ioc_stopped p \<longrightarrow> Signal \<in> set evs) \<and>
     (signal_wait p \<longleftrightarrow> sig \<and> \<not> ioc_stopped p) \<and> (ioc_stopped p \<longrightarrow> sig) \<and>
     (case control p of
        Exited code \<Rightarrow> code = 0 \<and> (sig \<longrightarrow> ioc_stopped p) \<and> (\<forall>sv \<in> set (servers p). connections sv = {})
      | Caught x \<Rightarrow> \<not> ioc_stopped p
      | In_run \<Rightarrow> True)"

lemma connections_destroy [simp]: "connections (destroy sv) = {}"
  by (simp add: destroy_def stop_all_def)

lemma pstep_process_inv: "pstep p e p' \<Longrightarrow> process_inv sig evs p \<Longrightarrow> process_inv sig (evs @ [e]) p'"
  by (induction rule: pstep.induct)
    (auto simp: process_inv_def after_handler_def out_of_work_def split: option.split)

lemma prun_process_inv:
  "prun p evs p' \<Longrightarrow> process_inv sig [] p \<Longrightarrow> process_inv sig evs p'"
  by (induction rule: prun.induct) (auto dest: pstep_process_inv)

lemma launched_process_inv: "process_inv sig [] (launched sig apps)"
  by (simp add: process_inv_def launched_def)

text \<open>From every state of a process that has not ended and that waits for a signal, or has got one, a signal ends it.\<close>

lemma pstep_stopped:
  assumes "control p = In_run" "ioc_stopped p"
  shows "\<exists>p'. prun p [Return] p' \<and> control p' = Exited 0"
  using prun_snoc [OF prun_Nil pstep_return [OF assms(1)]] assms(2) by auto

lemma prun_Cons: "prun p1 evs p2 \<Longrightarrow> pstep p e p1 \<Longrightarrow> prun p (e # evs) p2"
proof (induction rule: prun.induct)
  case (prun_Nil p1)
  from prun.prun_snoc [OF prun.prun_Nil prun_Nil] show ?case by simp
next
  case (prun_snoc p1 evs p2 e' p3)
  from prun.prun_snoc [OF prun_snoc.IH [OF prun_snoc.prems] prun_snoc.hyps(2)] show ?case by simp
qed

lemma pstep_running:
  assumes "control p = In_run" "ioc_stopped p \<or> signal_wait p"
  shows "\<exists>evs p'. prun p evs p' \<and> control p' = Exited 0 \<and> set evs \<subseteq> {Signal, Return}"
proof (cases "ioc_stopped p")
  case True
  with pstep_stopped [OF assms(1)] show ?thesis by force
next
  case False
  let ?p = "p\<lparr>ioc_stopped := True, signal_wait := False\<rparr>"
  obtain p' where "prun ?p [Return] p'" "control p' = Exited 0"
    using pstep_stopped [of ?p] assms by auto
  with prun_Cons [OF _ pstep_signal [OF assms(1) False]] False assms(2) show ?thesis
    by (intro exI [of _ "[Signal, Return]"] exI [of _ p']) simp
qed

lemma process_can_exit:
  assumes "\<nexists>code. control p = Exited code" "ioc_stopped p \<or> signal_wait p"
  shows "\<exists>evs' p'. prun p evs' p' \<and> control p' = Exited 0 \<and> set evs' \<subseteq> {Print_and_retry, Signal, Return}"
proof (cases "control p")
  case In_run
  with pstep_running [OF In_run assms(2)] show ?thesis by blast
next
  case (Caught x)
  let ?p = "p\<lparr>control := In_run\<rparr>"
  obtain evs' p' where "prun ?p evs' p'" "control p' = Exited 0" "set evs' \<subseteq> {Signal, Return}"
    using pstep_running [of ?p] assms(2) by auto
  with prun_Cons [OF _ pstep_retry [OF Caught]] show ?thesis
    by (intro exI [of _ "Print_and_retry # evs'"] exI [of _ p']) auto
qed (use assms in auto)

inductive_simps pstep_On: "pstep p (On k e) p'"



text \<open>A process whose handlers are those of servers that have just started to listen\<close>

definition listening_apps :: "('w request_handler \<times> server) list \<Rightarrow> bool" where
  "listening_apps apps \<longleftrightarrow> (\<forall>(rh, sv) \<in> set apps. \<exists>sec. sv = listening sec)"

lemma listening_apps_alive: "listening_apps apps \<Longrightarrow> servers_alive (launched sig apps)"
  by (rule launched_alive) (auto simp: listening_apps_def listening_def do_accept_def)

lemma launched_project:
  assumes "prun (launched sig apps) evs p" "listening_apps apps" "apps ! k = (rh, sv)" "k < length apps"
  shows "run rh sv (events_of k evs) (servers p ! k)" "services p ! k = rh"
proof -
  have k: "services (launched sig apps) ! k = rh" "servers (launched sig apps) ! k = sv" "k < length (servers (launched sig apps))"
    using assms(3,4) by (simp_all add: launched_def)
  from prun_project [OF assms(1) listening_apps_alive [OF assms(2)] k(3)] k(1,2)
  show "run rh sv (events_of k evs) (servers p ! k)" by simp
  from prun_fixed [OF assms(1)] k(1) show "services p ! k = rh" by simp
qed

text \<open>A client of one of the servers gets the reply of the handler of that server.\<close>

lemma process_server_step:
  assumes "prun (launched sig apps) evs p" "listening_apps apps" "pstep p (On k e) p'"
  shows "k < length apps \<and> (\<exists>sec. run (fst (apps ! k)) (listening sec) (events_of k evs) (servers p ! k) \<and>
    step (fst (apps ! k)) (servers p ! k) e (servers p' ! k))"
proof -
  from assms(3) have "k < length (servers p)" and st: "step (services p ! k) (servers p ! k) e (servers p' ! k)"
    by (auto simp: pstep_On)
  with prun_fixed [OF assms(1)] have k: "k < length apps" by (simp add: launched_def)
  obtain rh sv where a: "apps ! k = (rh, sv)" by fastforce
  with k have "(rh, sv) \<in> set apps" by (metis nth_mem)
  with assms(2) obtain sec where sv: "sv = listening sec" by (auto simp: listening_apps_def)
  from launched_project [OF assms(1,2) a k] st sv k a show ?thesis by auto
qed

lemma events_of_event: "e \<in> set (events_of k evs) \<Longrightarrow> e \<noteq> Destroyed \<Longrightarrow> On k e \<in> set evs"
proof (induction evs)
  case (Cons x evs)
  then show ?case by (cases x) (auto simp: events_of_def split: if_splits)
qed (simp add: events_of_def)

lemma process_gets_reply:
  assumes "prun (launched sig apps) evs p" "listening_apps apps" "pstep p (On k (Written i success n)) p'"
    and "method_ok m" "uri_ok u" "number_ok vmaj" "number_ok vmin"
    and "version_fits vmaj" "version_fits vmin" "lines_ok False ls"
    and "bytes_in i (events_of k evs) = request_text m u vmaj vmin ls @ rest"
  shows "k < length apps \<and> (\<exists>bytes w rep c. On k (Received i success bytes w None) \<in> set evs \<and>
    handle_request (fst (apps ! k)) w (request_of m u (int (decimal vmaj)) (int (decimal vmin)) ls) empty_reply = Inr rep \<and>
    objects (servers p' ! k) i = Some c \<and> sent c = wire rep \<and> \<not> socket_open c)"
proof -
  from process_server_step [OF assms(1-3)] obtain sec where k: "k < length apps"
    and r: "run (fst (apps ! k)) (listening sec) (events_of k evs) (servers p ! k)"
      "step (fst (apps ! k)) (servers p ! k) (Written i success n) (servers p' ! k)" by blast
  from service_gets_reply [OF assms(4-10) r(1) assms(11) r(2)] obtain bytes w rep c where
    "Received i success bytes w None \<in> set (events_of k evs)"
    and c: "handle_request (fst (apps ! k)) w (request_of m u (int (decimal vmaj)) (int (decimal vmin)) ls) empty_reply = Inr rep"
      "objects (servers p' ! k) i = Some c" "sent c = wire rep" "\<not> socket_open c" by blast
  then have "On k (Received i success bytes w None) \<in> set evs" by (simp add: events_of_event)
  with k c show ?thesis by blast
qed

text \<open>
  A server that has not been destroyed always waits for the next client, so \<^verbatim>\<open>run\<close> never runs out of work: a
  process that does not wait for a signal never ends.
\<close>

lemma update_object_acceptor:
  "accepting (update_object i f sv) = accepting sv" "acceptor_open (update_object i f sv) = acceptor_open sv"
  by (simp_all add: update_object_def)

lemma step_accepting:
  "step rh sv e sv' \<Longrightarrow> running sv \<longrightarrow> accepting sv \<and> acceptor_open sv \<Longrightarrow>
     running sv' \<longrightarrow> accepting sv' \<and> acceptor_open sv'"
proof (induction rule: step.induct)
  case (step_read sv i bytes w ec x sv')
  then obtain c where c: "objects sv i = Some c" and "running sv" by (auto simp: has_pending_def)
  from step_read(3) c have "accepting sv' = accepting sv \<and> acceptor_open sv' = acceptor_open sv"
    by (rule on_read_cases) (simp_all add: completion_defs update_object_acceptor)
  with step_read(4) \<open>running sv\<close> show ?case by simp
qed (auto simp: on_accept_def on_handshake_def on_write_def create_connection_def manager_start_def
    conn_start_def do_accept_def completion_defs update_object_def has_pending_def destroy_def)

lemma run_accepting:
  "run rh sv evs sv' \<Longrightarrow> running sv \<longrightarrow> accepting sv \<and> acceptor_open sv \<Longrightarrow>
     running sv' \<longrightarrow> accepting sv' \<and> acceptor_open sv'"
proof (induction rule: run.induct)
  case (run_snoc sv evs sv1 e sv2)
  from step_accepting [OF run_snoc.hyps(2) run_snoc.IH [OF run_snoc.prems]] show ?case .
qed simp

lemma listening_accepting: "accepting (listening sec) \<and> acceptor_open (listening sec)"
  by (simp add: listening_def do_accept_def)

lemma launched_has_work:
  assumes "prun (launched sig apps) evs p" "listening_apps apps" "apps \<noteq> []" "control p \<noteq> Exited 0"
  shows "\<not> out_of_work p"
proof -
  obtain rh sv where a: "apps ! 0 = (rh, sv)" by fastforce
  have k: "0 < length apps" using assms(3) by simp
  with a have "(rh, sv) \<in> set apps" by (metis nth_mem)
  with assms(2) obtain sec where sv: "sv = listening sec" by (auto simp: listening_apps_def)
  have "0 < length (servers p)" using prun_fixed [OF assms(1)] k by (simp add: launched_def)
  then have mem: "servers p ! 0 \<in> set (servers p)" by (rule nth_mem)
  moreover have "running (servers p ! 0)"
    using prun_alive [OF assms(1) listening_apps_alive [OF assms(2)]] mem assms(4)
    by (simp add: servers_alive_def)
  then have "accepting (servers p ! 0)"
    using run_accepting [OF launched_project(1) [OF assms(1,2) a k]] sv listening_accepting by blast
  ultimately show ?thesis by (auto simp: out_of_work_def out_of_operations_def list_all_iff)
qed

lemma unattended_never_ends:
  "prun p evs p' \<Longrightarrow> p = launched False apps \<Longrightarrow> listening_apps apps \<Longrightarrow> apps \<noteq> [] \<Longrightarrow>
     \<not> ioc_stopped p' \<and> \<not> signal_wait p' \<and> (\<forall>code. control p' \<noteq> Exited code)"
proof (induction rule: prun.induct)
  case (prun_snoc p evs p1 e p2)
  note ih = prun_snoc.IH [OF prun_snoc.prems]
  have "\<not> out_of_work p1"
    using launched_has_work [of False apps evs p1] prun_snoc ih by simp
  with prun_snoc.hyps(2) ih show ?case
    by (cases rule: pstep.cases) (auto simp: after_handler_def split: option.split)
qed (simp add: launched_def)

lemma main_returns_cases:
  assumes "main_returns sig start evs code"
  obtains (set_up) "start = Inl code" "evs = []"
  | (loop) apps p where "start = Inr apps" "prun (launched sig apps) evs p" "control p = Exited code"
  using assms by (auto simp: main_returns_def main_runs_def)

lemma unattended_main:
  assumes "main_returns False start evs code" "\<And>apps. start = Inr apps \<Longrightarrow> listening_apps apps \<and> apps \<noteq> []"
  shows "start = Inl code \<and> evs = []"
  using assms(1)
proof (cases rule: main_returns_cases)
  case (loop apps p)
  with unattended_never_ends [OF loop(2) refl] assms(2) show ?thesis by simp
qed simp

lemma attended_main:
  assumes "main_returns True start evs code"
  shows "start = Inl code \<and> evs = [] \<or> code = 0 \<and> Signal \<in> set evs"
  using assms
proof (cases rule: main_returns_cases)
  case (loop apps p)
  from prun_process_inv [OF loop(2) launched_process_inv] loop(3) show ?thesis
    by (simp add: process_inv_def)
qed simp

text \<open>The program can be ended in every state: a signal makes it return 0.\<close>

lemma prun_append: "prun p1 evs' p2 \<Longrightarrow> prun p evs p1 \<Longrightarrow> prun p (evs @ evs') p2"
proof (induction rule: prun.induct)
  case (prun_snoc p1 evs' p2 e p3)
  from prun.prun_snoc [OF prun_snoc.IH [OF prun_snoc.prems] prun_snoc.hyps(2)] show ?case by simp
qed simp

lemma attended_can_end:
  assumes "main_runs True start evs p" "\<nexists>code. control p = Exited code"
  shows "\<exists>evs'. main_returns True start (evs @ evs') 0 \<and> set evs' \<subseteq> {Print_and_retry, Signal, Return}"
proof -
  from assms(1) obtain apps where start: "start = Inr apps" and run: "prun (launched True apps) evs p"
    by (auto simp: main_runs_def)
  from prun_process_inv [OF run launched_process_inv] have "ioc_stopped p \<or> signal_wait p"
    by (auto simp: process_inv_def)
  from process_can_exit [OF assms(2) this] obtain evs' p' where "prun p evs' p'" "control p' = Exited 0"
    and e: "set evs' \<subseteq> {Print_and_retry, Signal, Return}" by blast
  with prun_append [OF _ run] start have "main_returns True start (evs @ evs') 0"
    by (auto simp: main_returns_def main_runs_def)
  with e show ?thesis by blast
qed

text \<open>A client of server \<open>k\<close> that sends the request \<open>hello\<close> and gets its reply\<close>

definition hello_events :: "nat \<Rightarrow> 'w \<Rightarrow> 'w process_event list" where
  "hello_events k w = [On k (Accepted success), On k (Received 0 success hello w None)]"

definition with_server :: "nat \<Rightarrow> server \<Rightarrow> 'w process \<Rightarrow> 'w process" where
  "with_server k sv p = p\<lparr>servers := (servers p)[k := sv]\<rparr>"

lemma pstep_with_server:
  assumes "k < length apps" "e \<noteq> Destroyed" "event_exn e = None" "step (fst (apps ! k)) sv e sv'"
  shows "pstep (with_server k sv (launched sig apps)) (On k e) (with_server k sv' (launched sig apps))"
  using assms by (simp add: pstep_On with_server_def launched_def after_handler_def) blast

definition written_server :: "reply \<Rightarrow> server" where
  "written_server rep = on_write 0 success (length (wire rep)) (answered_server rep)"

lemma prun_hello:
  assumes "k < length apps" "apps ! k = (rh, listening False)"
    and "handle_request rh w (request_of ''GET'' ''/'' 1 0 []) empty_reply = Inr rep"
  shows "prun (launched sig apps) (hello_events k w) (with_server k (answered_server rep) (launched sig apps))"
    and "pstep (with_server k (answered_server rep) (launched sig apps)) (On k (Written 0 success (length (wire rep))))
      (with_server k (written_server rep) (launched sig apps))"
proof -
  have start: "launched sig apps = with_server k (listening False) (launched sig apps)"
    using assms(1,2) list_update_id [of "map snd apps" k] by (simp add: with_server_def launched_def)
  have "step rh (listening False) (Accepted success) accepted_server"
    by (simp add: accepted_server_def listening_def do_accept_def)
  then have "pstep (launched sig apps) (On k (Accepted success)) (with_server k accepted_server (launched sig apps))"
    using pstep_with_server [of k apps "Accepted success" "listening False" accepted_server sig] assms(1,2) start by simp
  from prun_snoc [OF prun_snoc [OF prun_Nil this]
      pstep_with_server [of k apps "Received 0 success hello w None" accepted_server "answered_server rep"]]
  show "prun (launched sig apps) (hello_events k w) (with_server k (answered_server rep) (launched sig apps))"
    using assms step_hello [OF assms(3)] by (simp add: hello_events_def)
  have "step rh (answered_server rep) (Written 0 success (length (wire rep))) (written_server rep)"
    by (simp add: has_pending_def objects_answered after_read_def written_server_def)
  then show "pstep (with_server k (answered_server rep) (launched sig apps)) (On k (Written 0 success (length (wire rep))))
      (with_server k (written_server rep) (launched sig apps))"
    using pstep_with_server [of k apps "Written 0 success (length (wire rep))"] assms(1,2) by simp
qed

lemma hello_bytes: "bytes_in 0 (events_of k (hello_events k w)) = request_text ''GET'' ''/'' ''1'' ''0'' [] @ []"
  by (simp add: events_of_def hello_events_def bytes_in_def hello_def request_text_def version_text_def)

lemma hello_request_ok:
  "method_ok ''GET''" "uri_ok ''/''" "number_ok ''1''" "number_ok ''0''" "version_fits ''1''" "version_fits ''0''"
  "lines_ok False []" "int (decimal ''1'') = 1" "int (decimal ''0'') = 0"
  by code_simp+








subsection \<open>Properties\<close>






end
