(* ===== verification/Confinement.thy ===== *)
theory Confinement
  imports Config_Server Process
begin

section \<open>What the program can reveal\<close>

text \<open>
  Two runs of the program that differ only in what other programs do to the file system, and not below the
  directories that are served, go through the same states: what is sent to any client depends on no file outside
  of them. The world in an event is the file system while the handler runs, so the events of the two runs are
  related by \<open>rel_process_event\<close>.
\<close>

definition same_answers :: "('w \<Rightarrow> 'w \<Rightarrow> bool) \<Rightarrow> 'w request_handler \<Rightarrow> bool" where
  "same_answers R rh \<longleftrightarrow> (\<forall>w w' req rep. R w w' \<longrightarrow> handle_request rh w req rep = handle_request rh w' req rep)"

lemma same_answersD: "same_answers R rh \<Longrightarrow> R w w' \<Longrightarrow> handle_request rh w = handle_request rh w'"
  by (intro ext) (auto simp: same_answers_def)

lemma on_read_same:
  assumes "handle_request rh w = handle_request rh w'"
  shows "on_read rh w i ec bytes sv = on_read rh w' i ec bytes sv"
  unfolding on_read_def assms by (rule refl)

text \<open>Only a read has a world in its event.\<close>

lemma rel_event_iff:
  "rel_event R (Accepted ec) e \<longleftrightarrow> e = Accepted ec"
  "rel_event R (Handshaken i ec) e \<longleftrightarrow> e = Handshaken i ec"
  "rel_event R (Received i ec bytes w x) e \<longleftrightarrow> (\<exists>w'. e = Received i ec bytes w' x \<and> R w w')"
  "rel_event R (Written i ec n) e \<longleftrightarrow> e = Written i ec n"
  "rel_event R Destroyed e \<longleftrightarrow> e = Destroyed"
  by (cases e; auto)+

lemma rel_process_event_iff:
  "rel_process_event R (On k e) pe \<longleftrightarrow> (\<exists>e'. pe = On k e' \<and> rel_event R e e')"
  "rel_process_event R Signal pe \<longleftrightarrow> pe = Signal"
  "rel_process_event R Print_and_retry pe \<longleftrightarrow> pe = Print_and_retry"
  "rel_process_event R Return pe \<longleftrightarrow> pe = Return"
  by (cases pe; auto)+

lemma step_same:
  assumes "step rh sv e sv'" "rel_event R e e'" "same_answers R rh"
  shows "step rh sv e' sv'"
  using assms(1,2)
proof (induction rule: step.induct)
  case (step_read sv i bytes w ec x sv')
  then obtain w' where e': "e' = Received i ec bytes w' x" "R w w'" by (auto simp: rel_event_iff)
  from step_read(3) have "on_read rh w' i ec bytes sv = Some (x, sv')"
    unfolding on_read_same [OF same_answersD [OF assms(3) e'(2)]] .
  with step_read(1,2) show ?case unfolding e'(1) by (rule step.step_read)
qed (simp_all add: rel_event_iff step.intros)

lemma event_exn_same: "rel_event R e e' \<Longrightarrow> event_exn e = event_exn e'"
  by (cases e) (auto simp: rel_event_iff)

lemma pstep_same:
  assumes "pstep p e p'" "rel_process_event R e e'" "\<forall>rh \<in> set (services p). same_answers R rh"
    and "length (services p) = length (servers p)"
  shows "pstep p e' p'"
  using assms
proof (induction rule: pstep.induct)
  case (pstep_handler p k e sv')
  then obtain e2 where e2: "e' = On k e2" "rel_event R e e2" by (auto simp: rel_process_event_iff)
  from e2(2) pstep_handler(4) have "e2 \<noteq> Destroyed" by (cases e) (auto simp: rel_event_iff)
  moreover have "step (services p ! k) (servers p ! k) e2 sv'"
    using pstep_handler(3,7,8) by (intro step_same [OF pstep_handler(5) e2(2)]) simp
  ultimately have "pstep p (On k e2) (p\<lparr>servers := (servers p)[k := sv'], control := after_handler e2\<rparr>)"
    using pstep_handler(1-3) by (intro pstep.pstep_handler)
  then show ?case by (simp add: e2(1) after_handler_def event_exn_same [OF e2(2)])
qed (simp_all add: rel_process_event_iff pstep.intros)

lemma prun_same:
  assumes "prun p evs p'" "list_all2 (rel_process_event R) evs evs'" "\<forall>rh \<in> set (services p). same_answers R rh"
    and "length (services p) = length (servers p)"
  shows "prun p evs' p'"
  using assms
proof (induction arbitrary: evs' rule: prun.induct)
  case (prun_Nil p)
  then show ?case by (simp add: prun.prun_Nil)
next
  case (prun_snoc p evs p1 e p2)
  then obtain evs2 e2 where e: "evs' = evs2 @ [e2]" "list_all2 (rel_process_event R) evs evs2" "rel_process_event R e e2"
    by (auto simp: list_all2_append1 list_all2_Cons1)
  from prun_fixed [OF prun_snoc(1)] prun_snoc(5,6) have "pstep p1 e2 p2"
    by (intro pstep_same [OF prun_snoc(2) e(3)]) simp_all
  with prun_snoc.IH [OF e(2) prun_snoc(5,6)] show ?case unfolding e(1) by (rule prun.prun_snoc)
qed


subsection \<open>The handlers of the program\<close>

text \<open>The directories that a command line has the program serve\<close>

definition entry_roots :: "server_entry \<Rightarrow> string set" where
  "entry_roots e =
     (if cfg_return e = None then root_of ` set (value_or (cfg_locations e) []) else {})"

fun served_roots :: "command_line \<Rightarrow> string set" where
  "served_roots (Serve root address port) = {root}"
| "served_roots (Config name (Json (Some es))) = (\<Union>t \<in> set es. case t of Typed e \<Rightarrow> entry_roots e | Mistyped \<Rightarrow> {})"
| "served_roots _ = {}"

definition agree_below_all :: "string set \<Rightarrow> file_history \<Rightarrow> file_history \<Rightarrow> bool" where
  "agree_below_all roots f g \<longleftrightarrow> (\<forall>root \<in> roots. agree_below root f g)"

lemma handler_same:
  assumes "std_sort srt" "build_handler srt e = Inr h" "entry_roots e \<subseteq> roots" "\<forall>root \<in> roots. NUL \<notin> set root"
  shows "same_answers (agree_below_all roots) h"
proof (cases "cfg_return e")
  case (Some t)
  then obtain st entries where "h = set_service (\<lambda>fsys. return_handler st entries) None"
    using assms(2) by (auto simp: build_handler_def build_return_def andthen_Inr_iff)
  then show ?thesis by (simp add: same_answers_def set_service_def handle_request_def)
next
  case None
  show ?thesis
  proof (cases "cfg_locations e")
    case (Some locs)
    have r: "root_of l \<in> roots" if "l \<in> set locs" for l
      using assms(3) that None Some by (simp add: entry_roots_def value_or_def image_subset_iff del: root_of.simps)
    then have nul: "NUL \<notin> set (root_of l)" if "l \<in> set locs" for l using assms(4) that by blast
    show ?thesis
      unfolding same_answers_def
    proof (intro allI impI)
      fix f g req rep assume "agree_below_all roots f g"
      with r have "f t p = g t p" if "l \<in> set locs" "below (root_of l) p" for l t p
        using that unfolding agree_below_all_def agree_below_def by blast
      with nul show "handle_request h f req rep = handle_request h g req rep"
        by (intro configured_confined [OF assms(1,2) None Some])
    qed
  next
    case No_locations: None
    then show ?thesis
      using build_handler_none [OF assms(2) None No_locations] by (simp add: same_answers_def handle_request_def)
  qed
qed

lemma program_same:
  assumes "start_servers env cmd = Inr apps" "std_sort (env_sort env)" "\<forall>root \<in> served_roots cmd. NUL \<notin> set root"
    and "rh \<in> set (map fst apps)"
  shows "same_answers (agree_below_all (served_roots cmd)) rh"
proof (cases cmd)
  case (Serve root address port)
  have "rh = Some (\<lambda>fsys. route fsys (simple_router (env_sort env) root))"
    using assms(1,4) unfolding Serve start_servers_Serve by auto
  moreover have "route f (simple_router (env_sort env) root) req rep = route g (simple_router (env_sort env) root) req rep"
    if "agree_below root f g" for f g req rep
    using that assms(3) Serve by (intro route_below) (simp add: simple_router_entries [OF assms(2)])
  ultimately show ?thesis
    by (auto simp: Serve same_answers_def handle_request_def agree_below_all_def)
next
  case (Config name cf)
  with assms(1) obtain es where es: "cf = Json (Some es)" by (auto simp: start_servers_Config)
  from assms(4) obtain k where k: "k < length apps" "rh = fst (apps ! k)"
    by (auto simp: in_set_conv_nth)
  from built_entry [OF assms(1) [unfolded Config es] k(1)] obtain e where e: "k < length es" "es ! k = Typed e"
    "build_handler (env_sort env) e = Inr rh" by (auto simp: k(2))
  then have "entry_roots e \<subseteq> served_roots cmd"
    unfolding Config es using nth_mem [OF e(1)] by (force split: typed.splits)
  from handler_same [OF assms(2) e(3) this assms(3)] show ?thesis .
qed (use assms(1) in \<open>simp_all add: start_servers_def\<close>)

end
