(* ===== verification/Example_Apps.thy ===== *)
theory Example_Apps
  imports Config_Server Process
begin

section \<open>The example programs (\<open>src/examples\<close>)\<close>

text \<open>
  The four programs that come with the library: \<^verbatim>\<open>rest.cpp\<close>, \<^verbatim>\<open>complete.cpp\<close>, \<^verbatim>\<open>static.cpp\<close> and
  \<^verbatim>\<open>https_static.cpp\<close>. Each builds its servers and enters the loop of theory \<open>Process\<close>; none waits for
  a signal, so that none returns once its servers listen (\<open>examples_return\<close>). The result of a \<^verbatim>\<open>main\<close> up to its loop is as in \<open>start_servers\<close>.
\<close>

text \<open>A server with its handler that listens\<close>

definition listen_with :: "environment \<Rightarrow> string \<Rightarrow> string \<Rightarrow> bool \<Rightarrow> file_history service \<Rightarrow> exn + app" where
  "listen_with env port address sec h =
     andthen (listen (env_net env) port address (new_server sec)) (\<lambda>sv. Inr (set_service h None, sv))"

definition exit_code :: "exn + app list \<Rightarrow> int + app list" where
  "exit_code r = map_sum (\<lambda>e. 1) id r"


subsection \<open>\<open>rest.cpp\<close>\<close>

definition get_version :: handler_fn where
  "get_version req os = Inr (put_text (''1.0.0'' @ [LF]) os)"

definition get_version_j :: handler_fn where
  \<open>get_version_j req os = Inr (put_text ''{"version":"1.0.0"}'' (manipulate json os))\<close>

definition get_bad :: handler_fn where
  "get_bad req os = Inr (manipulate set_bad_request os)"

definition get_hello :: handler_fn where
  "get_hello req os = Inr (put_text (''Hello, world!'' @ [LF]) os)"

definition get_hello_name :: handler_fn where
  "get_hello_name req os = Inr (put_text (''Hello, '' @ resource req ''name'' @ ''!'' @ [LF]) os)"

definition get_print :: handler_fn where
  "get_print req os =
     Inr (put_text (''Hi, '' @ query req ''name'' @ '' from '' @ query req ''country'' @ ''!'' @ [LF]) os)"

definition get_greet :: handler_fn where
  "get_greet req os =
     Inr (put_text (''Hi, '' @ resource req ''name'' @ '' from '' @ resource req ''country'' @ ''!'' @ [LF]) os)"

text \<open>What it prints to the standard output is not modelled.\<close>

definition put_person :: handler_fn where
  "put_person req os = Inr (put_text ''ok'' os)"

definition rest_resources :: "(string \<times> handler) list" where
  "rest_resources =
     [(''/version'', get get_version),
      (''/version_j'', get get_version_j),
      (''/bad'', get get_bad),
      (''/hello'', get get_hello),
      (''/hello/:name'', get get_hello_name),
      (''/print'', get get_print),
      (''/greet/:name/:country'', get get_greet),
      (''/person/:name/:country'', put put_person)]"

definition rest_router :: "sorter \<Rightarrow> router" where
  "rest_router srt = resources_after srt rest_resources"

definition rest_main :: "environment \<Rightarrow> int + app list" where
  "rest_main env = exit_code
     (andthen (listen_with env ''7000'' ''0.0.0.0'' False (\<lambda>fsys. route fsys (rest_router (env_sort env))))
       (\<lambda>s. Inr [s]))"


subsection \<open>\<open>complete.cpp\<close> and \<open>static.cpp\<close>\<close>

definition get_books :: handler_fn where
  "get_books req os = Inr (put_text (''Hello, get api!'' @ [LF]) os)"

definition complete_router :: "sorter \<Rightarrow> router" where
  "complete_router srt = resources_after srt [(''/'', static_content ''.''), (''/books'', get get_books)]"

definition complete_main :: "environment \<Rightarrow> int + app list" where
  "complete_main env = exit_code
     (andthen (listen_with env ''7000'' ''localhost'' False (\<lambda>fsys. route fsys (complete_router (env_sort env))))
       (\<lambda>s. Inr [s]))"

definition static_main :: "environment \<Rightarrow> int + app list" where
  "static_main env = exit_code
     (andthen (listen_with env ''7000'' ''0.0.0.0'' False
        (\<lambda>fsys. route fsys (resources_after (env_sort env) [(''/'', static_content ''.'')]))) (\<lambda>server_1.
      andthen (listen_with env ''7001'' ''0.0.0.0'' False
        (\<lambda>fsys. route fsys (resources_after (env_sort env) [(''/'', static_content ''..'')]))) (\<lambda>server_2.
      Inr [server_1, server_2])))"


subsection \<open>\<open>https_static.cpp\<close>\<close>

definition https_static_settings :: ssl_settings where
  "https_static_settings = default_settings\<lparr>certificate := ''cert.pem'', certificate_key := ''key.pem'',
     dhparam := ''dh4096.pem''\<rparr>"

text \<open>The handler that sends a client to the HTTPS server\<close>

definition redirect_reply :: "http_request \<Rightarrow> reply" where
  "redirect_reply req =
     (let host = get_header req ''host'' in
      if host = [] then stock_reply bad_request
      else (stock_reply moved_permanently)\<lparr>rep_headers := rep_headers (stock_reply moved_permanently) @
        [\<lparr>h_name = ''Location'', h_value = ''https://'' @ strip_port host @ '':7000'' @ req_uri req\<rparr>]\<rparr>)"

definition https_static_main :: "environment \<Rightarrow> int + app list" where
  "https_static_main env = exit_code
     (andthen (construct_https (env_tls env) (env_order env) https_static_settings) (\<lambda>_.
      andthen (listen_with env ''7000'' ''0.0.0.0'' True
        (\<lambda>fsys. route fsys (resources_after (env_sort env) [(''/'', static_content ''.'')]))) (\<lambda>server.
      andthen (listen_with env ''8002'' ''0.0.0.0'' False (\<lambda>fsys req rep. Inr (redirect_reply req))) (\<lambda>http_server.
      Inr [server, http_server]))))"


subsection \<open>The four programs\<close>

definition rest_returns :: "environment \<Rightarrow> file_history process_event list \<Rightarrow> int \<Rightarrow> bool" where
  "rest_returns env evs code = main_returns False (rest_main env) evs code"

definition complete_returns :: "environment \<Rightarrow> file_history process_event list \<Rightarrow> int \<Rightarrow> bool" where
  "complete_returns env evs code = main_returns False (complete_main env) evs code"

definition static_returns :: "environment \<Rightarrow> file_history process_event list \<Rightarrow> int \<Rightarrow> bool" where
  "static_returns env evs code = main_returns False (static_main env) evs code"

definition https_static_returns :: "environment \<Rightarrow> file_history process_event list \<Rightarrow> int \<Rightarrow> bool" where
  "https_static_returns env evs code = main_returns False (https_static_main env) evs code"

lemmas example_returns_defs = rest_returns_def complete_returns_def static_returns_def https_static_returns_def


subsection \<open>What the examples install\<close>

lemma exit_code_Inr [simp]: "exit_code r = Inr apps \<longleftrightarrow> r = Inr apps"
  by (cases r) (simp_all add: exit_code_def)

lemma exit_code_Inl: "exit_code r = Inl code \<Longrightarrow> code = 1"
  by (cases r) (simp_all add: exit_code_def)

lemma listen_with_Inr:
  "listen_with env port address sec h = Inr a \<longleftrightarrow>
     listen (env_net env) port address (new_server sec) = Inr (listening sec) \<and> a = (Some h, listening sec)"
  by (auto simp: listen_with_def andthen_Inr_iff set_service_def listen_Inr)

lemma https_static_main_Inr:
  assumes "https_static_main env = Inr apps"
  shows "apps = [(Some (\<lambda>fsys. route fsys (resources_after (env_sort env) [(''/'', static_content ''.'')])), listening True),
    (Some (\<lambda>fsys req rep. Inr (redirect_reply req)), listening False)]"
  using assms by (simp add: https_static_main_def andthen_Inr_iff listen_with_Inr)


subsection \<open>The interface of \<open>rest.cpp\<close>\<close>

text \<open>The calls that a client can make, their paths and what the program answers\<close>

datatype api_call =
    Version
  | Version_j
  | Bad
  | Hello
  | Hello_to string
  | Print "(string \<times> string) list"
  | Greet string string
  | Person string string

fun call_path :: "api_call \<Rightarrow> string" where
  "call_path Version = ''/version''"
| "call_path Version_j = ''/version_j''"
| "call_path Bad = ''/bad''"
| "call_path Hello = ''/hello''"
| "call_path (Hello_to n) = ''/hello/'' @ n"
| "call_path (Print kvs) = ''/print?'' @ query_text kvs"
| "call_path (Greet n c) = ''/greet/'' @ n @ CHR ''/'' # c"
| "call_path (Person n c) = ''/person/'' @ n @ CHR ''/'' # c"

definition call_method :: "api_call \<Rightarrow> string" where
  "call_method a = (case a of Person n c \<Rightarrow> ''PUT'' | _ \<Rightarrow> ''GET'')"

definition path_segment :: "string \<Rightarrow> bool" where
  "path_segment v \<longleftrightarrow> v \<noteq> [] \<and> CHR ''/'' \<notin> set v \<and> CHR ''?'' \<notin> set v"

fun call_ok :: "api_call \<Rightarrow> bool" where
  "call_ok (Hello_to n) = path_segment n"
| "call_ok (Print kvs) = params_ok kvs"
| "call_ok (Greet n c) = (path_segment n \<and> path_segment c)"
| "call_ok (Person n c) = (path_segment n \<and> path_segment c)"
| "call_ok _ = True"

definition last_value :: "(string \<times> string) list \<Rightarrow> string \<Rightarrow> string" where
  "last_value kvs k = (case map_of (rev kvs) k of Some v \<Rightarrow> v | None \<Rightarrow> [])"

text \<open>Status, media type and text of the answer\<close>

fun call_answer :: "api_call \<Rightarrow> status_type \<times> string \<times> string" where
  "call_answer Version = (ok, ''text/plain'', ''1.0.0'' @ [LF])"
| \<open>call_answer Version_j = (ok, ''application/json'', ''{"version":"1.0.0"}'')\<close>
| "call_answer Bad = (bad_request, ''text/plain'', [])"
| "call_answer Hello = (ok, ''text/plain'', ''Hello, world!'' @ [LF])"
| "call_answer (Hello_to n) = (ok, ''text/plain'', ''Hello, '' @ n @ ''!'' @ [LF])"
| "call_answer (Print kvs) = (ok, ''text/plain'',
     ''Hi, '' @ last_value kvs ''name'' @ '' from '' @ last_value kvs ''country'' @ ''!'' @ [LF])"
| "call_answer (Greet n c) = (ok, ''text/plain'', ''Hi, '' @ n @ '' from '' @ c @ ''!'' @ [LF])"
| "call_answer (Person n c) = (ok, ''text/plain'', ''ok'')"

text \<open>Its resource\<close>

fun call_entry :: "api_call \<Rightarrow> string \<times> handler_fn" where
  "call_entry Version = (''/version'', get_version)"
| "call_entry Version_j = (''/version_j'', get_version_j)"
| "call_entry Bad = (''/bad'', get_bad)"
| "call_entry Hello = (''/hello'', get_hello)"
| "call_entry (Hello_to n) = (''/hello/:name'', get_hello_name)"
| "call_entry (Print kvs) = (''/print'', get_print)"
| "call_entry (Greet n c) = (''/greet/:name/:country'', get_greet)"
| "call_entry (Person n c) = (''/person/:name/:country'', put_person)"

fun call_params :: "api_call \<Rightarrow> params" where
  "call_params (Hello_to n) = [''name'' \<mapsto> n]"
| "call_params (Greet n c) = [''name'' \<mapsto> n, ''country'' \<mapsto> c]"
| "call_params (Person n c) = [''name'' \<mapsto> n, ''country'' \<mapsto> c]"
| "call_params _ = Map.empty"

text \<open>The path of a call without its query string, and the query string\<close>

fun call_query :: "api_call \<Rightarrow> (string \<times> string) list" where
  "call_query (Print kvs) = kvs"
| "call_query _ = []"

definition call_resource :: "api_call \<Rightarrow> string" where
  "call_resource a = (case a of Print kvs \<Rightarrow> ''/print'' | _ \<Rightarrow> call_path a)"

lemma split_call:
  assumes "call_ok a"
  shows "split_string (call_path a) (CHR ''?'') = (call_resource a, query_text (call_query a))"
proof (cases a)
  case (Print kvs)
  then show ?thesis
    using split_string_append [of "CHR ''?''" "''/print''"] by (simp add: call_resource_def)
qed (use assms in \<open>simp_all add: call_resource_def split_string_none path_segment_def\<close>)

definition rest_handlers :: "string \<Rightarrow> (string \<times> handler_fn) list" where
  "rest_handlers m = (if m = ''PUT'' then [(''/person/:name/:country'', put_person)] else
     [(''/version'', get_version), (''/version_j'', get_version_j), (''/bad'', get_bad), (''/hello'', get_hello),
      (''/hello/:name'', get_hello_name), (''/print'', get_print), (''/greet/:name/:country'', get_greet)])"

lemma rest_entries:
  assumes "m \<in> {''GET'', ''PUT''}"
  shows "entries_for m rest_resources =
    map (\<lambda>(loc, h). \<lparr>location = loc, entry_handler = dynamic_content m h\<rparr>) (rest_handlers m)"
  using assms by (auto simp: entries_for_def rest_resources_def get_def put_def rest_handlers_def)

lemma call_method_cases: "call_method a \<in> {''GET'', ''PUT''}"
  by (cases a) (simp_all add: call_method_def)

text \<open>Every call is taken by its resource only.\<close>

lemma match_tokens_Param:
  "v \<noteq> [] \<Longrightarrow> CHR ''/'' \<notin> set v \<Longrightarrow> r = [] \<or> hd r = CHR ''/'' \<Longrightarrow>
     match_tokens (Param n # ts) (v @ r) ps = match_tokens ts r (ps(n \<mapsto> v))"
proof -
  assume v: "v \<noteq> []" "CHR ''/'' \<notin> set v" "r = [] \<or> hd r = CHR ''/''"
  then obtain d ds where d: "v @ r = d # ds" by (cases v) auto
  show ?thesis
    using slash_free_split [OF v(2,3)] unfolding d match_tokens.simps by simp
qed

lemma match_call:
  assumes "call_ok a"
  shows "match_pattern (fst (call_entry a)) (call_resource a) = (True, call_params a)"
proof (cases a)
  case (Hello_to n)
  then show ?thesis
    using assms match_tokens_Param [of n "[]"]
    by (simp add: match_pattern_tokens call_resource_def path_segment_def)
next
  case (Greet n c)
  then show ?thesis
    using assms match_tokens_Param [of n "CHR ''/'' # c"] match_tokens_Param [of c "[]"]
    by (simp add: match_pattern_tokens call_resource_def path_segment_def)
next
  case (Person n c)
  then show ?thesis
    using assms match_tokens_Param [of n "CHR ''/'' # c"] match_tokens_Param [of c "[]"]
    by (simp add: match_pattern_tokens call_resource_def path_segment_def)
qed (simp_all add: match_pattern_literal call_resource_def)

lemma takes_dynamic:
  "takes \<lparr>location = loc, entry_handler = dynamic_content m h\<rparr> p \<longleftrightarrow>
     fst (match_pattern loc (fst (split_string p (CHR ''?''))))"
  by (simp add: takes.simps)

definition entry_of_call :: "api_call \<Rightarrow> resource_entry" where
  "entry_of_call a = \<lparr>location = fst (call_entry a), entry_handler = dynamic_content (call_method a) (snd (call_entry a))\<rparr>"

lemma entry_of_call_added: "entry_of_call a \<in> set (entries_for (call_method a) rest_resources)"
proof -
  have "call_entry a \<in> set (rest_handlers (call_method a))"
    by (cases a) (simp_all add: rest_handlers_def call_method_def)
  then show ?thesis
    by (auto simp: rest_entries [OF call_method_cases] entry_of_call_def case_prod_beta)
qed

lemma match_only_call:
  assumes "call_ok a"
  shows "\<forall>(loc, h) \<in> set (rest_handlers (call_method a)).
    fst (match_pattern loc (call_resource a)) \<longrightarrow> (loc, h) = call_entry a"
  using assms
  by (cases a)
    (simp_all add: rest_handlers_def match_pattern_tokens call_resource_def call_method_def path_segment_def)

lemma entry_of_call_only:
  assumes "call_ok a" "x \<in> set (entries_for (call_method a) rest_resources)" "takes x (call_path a)"
  shows "x = entry_of_call a"
proof -
  obtain loc h where x: "x = \<lparr>location = loc, entry_handler = dynamic_content (call_method a) h\<rparr>"
    "(loc, h) \<in> set (rest_handlers (call_method a))"
    using assms(2) by (auto simp: rest_entries [OF call_method_cases])
  with assms(3) have "fst (match_pattern loc (call_resource a))"
    by (simp add: takes_dynamic split_call [OF assms(1)])
  with match_only_call [OF assms(1)] x(2) have "(loc, h) = call_entry a" by blast
  with x(1) show ?thesis by (simp add: entry_of_call_def flip: \<open>(loc, h) = call_entry a\<close>)
qed

text \<open>What a handler writes, as a reply\<close>

definition text_reply :: "status_type \<times> string \<times> string \<Rightarrow> reply \<Rightarrow> reply" where
  "text_reply ans rep = (case ans of (st, ctype, txt) \<Rightarrow>
     rep\<lparr>content := txt, status := st, rep_headers := body_headers txt ctype\<rparr>)"

lemma serve_call:
  assumes "call_ok a"
  shows "serve_entry fsys (entry_of_call a) (call_path a) req rep = Inr (True, text_reply (call_answer a) rep)"
proof -
  have "params_ok (call_query a)"
    using assms by (cases a) (simp_all add: params_ok_def)
  then have q: "handle_query_parameters (query_text (call_query a)) ((new_request req)\<lparr>resources := call_params a\<rparr>) =
      \<lparr>orig_request = req, resources = call_params a, querystring = map_of (rev (call_query a))\<rparr>"
    by (simp add: handle_query_text new_request_def)
  have "serve_entry fsys (entry_of_call a) (call_path a) req rep =
      serve_dynamic (snd (call_entry a)) (fst (call_entry a)) (call_path a) req rep"
    by (simp add: serve_entry.simps entry_of_call_def)
  also have "\<dots> = andthen (snd (call_entry a)
        \<lparr>orig_request = req, resources = call_params a, querystring = map_of (rev (call_query a))\<rparr> new_stream)
      (\<lambda>ss. Inr (True, rep\<lparr>content := stream_text ss, status := stream_status ss,
         rep_headers := body_headers (stream_text ss) (content_type ss)\<rparr>))"
    by (simp add: serve_dynamic_def split_call [OF assms] match_call [OF assms] q body_headers_def)
  also have "\<dots> = Inr (True, text_reply (call_answer a) rep)"
    by (cases a) (simp_all add: get_version_def get_version_j_def get_bad_def get_hello_def get_hello_name_def
      get_print_def get_greet_def put_person_def put_text_def new_stream_def json_def set_bad_request_def
      resource_def query_def last_value_def text_reply_def)
  finally show ?thesis .
qed

lemma route_call:
  assumes "std_sort srt" "call_ok a" "url_decode (req_uri req) = (True, call_path a)" "path_ok (call_path a)"
    and "routed_method req = call_method a"
  shows "route fsys (rest_router srt) req rep = Inr (text_reply (call_answer a) rep)"
proof -
  have "takes (entry_of_call a) (call_path a)"
    by (simp add: entry_of_call_def takes_dynamic split_call [OF assms(2)] match_call [OF assms(2)])
  from std_sort.route_only [OF assms(1,3,4) _ this, of rest_resources fsys rep]
  show ?thesis
    using entry_of_call_added entry_of_call_only [OF assms(2)]
    by (simp add: rest_router_def assms(5) serve_call [OF assms(2)])
qed


subsection \<open>The other examples\<close>

lemma route_complete:
  assumes "std_sort srt" "url_decode (req_uri req) = (True, p)" "path_ok p" "routed_method req = ''GET''"
  shows "route fsys (complete_router srt) req rep =
    (if fst (split_string p (CHR ''?'')) \<in> {''/books'', ''/books/''}
     then Inr (text_reply (ok, ''text/plain'', ''Hello, get api!'' @ [LF]) rep)
     else andthen (serve_static fsys ''.'' ''/'' p req rep) (\<lambda>(m, r). Inr r))"
proof -
  let ?root = "\<lparr>location = ''/'', entry_handler = static_content ''.''\<rparr>"
  let ?books = "\<lparr>location = ''/books'', entry_handler = dynamic_content ''GET'' get_books\<rparr>"
  let ?adds = "[(''/'', static_content ''.''), (''/books'', get get_books)]"
  have es: "entries_for (routed_method req) ?adds = [?root, ?books]"
    by (simp add: entries_for_def assms(4) get_def)
  have tb: "takes ?books p \<longleftrightarrow> fst (split_string p (CHR ''?'')) \<in> {''/books'', ''/books/''}"
    by (simp add: takes_dynamic match_pattern_literal)
  have tr: "takes ?root p"
    using assms(3) by (cases p) (simp_all add: takes.simps path_ok_def)
  show ?thesis
  proof (cases "takes ?books p")
    case True
    have "route fsys (resources_after srt ?adds) req rep = andthen (serve_entry fsys ?books p req rep) (\<lambda>(m, r). Inr r)"
      using True by (intro std_sort.route_only [OF assms(1-3)]) (auto simp: es loc_len_def)
    also have "serve_entry fsys ?books p req rep = Inr (True, text_reply (ok, ''text/plain'', ''Hello, get api!'' @ [LF]) rep)"
      using True by (simp add: serve_entry.simps serve_dynamic_def case_prod_beta takes_dynamic
        get_books_def put_text_def new_stream_def text_reply_def body_headers_def)
    finally show ?thesis using True tb by (simp add: complete_router_def)
  next
    case False
    have "route fsys (resources_after srt ?adds) req rep = andthen (serve_entry fsys ?root p req rep) (\<lambda>(m, r). Inr r)"
      using False tr by (intro std_sort.route_only [OF assms(1-3)]) (auto simp: es)
    with False tb show ?thesis by (simp add: complete_router_def serve_entry.simps)
  qed
qed

lemma redirect_reply_eq:
  "redirect_reply req =
     (if get_header req ''host'' = [] then stock_reply bad_request
      else (stock_reply moved_permanently)\<lparr>rep_headers := rep_headers (stock_reply moved_permanently) @
        [\<lparr>h_name = ''Location'',
          h_value = ''https://'' @ takeWhile (\<lambda>c. c \<noteq> CHR '':'') (get_header req ''host'') @ '':7000'' @ req_uri req\<rparr>]\<rparr>)"
  by (simp add: redirect_reply_def Let_def strip_port_eq)

text \<open>The redirection keeps to its header line, whatever the client sent.\<close>

lemma redirect_reply_ok:
  assumes "request_ok req"
  shows "framed (redirect_reply req) \<and> headers_ok (redirect_reply req)"
proof -
  have "one_line (''https://'' @ strip_port (get_header req ''host'') @ '':7000'' @ req_uri req)"
    using strip_port_one_line [OF request_ok_get_header_one_line [OF assms]] request_ok_uri_one_line [OF assms]
    by (auto simp: one_line_def)
  then show ?thesis
    by (simp add: redirect_reply_def Let_def framed_def header_values_def headers_ok_def header_ok_def stock_reply_def)
qed

text \<open>The two directories of \<^verbatim>\<open>static.cpp\<close>\<close>

lemma static_main_Inr:
  assumes "static_main env = Inr apps"
  shows "apps = [(Some (\<lambda>fsys. route fsys (simple_router (env_sort env) ''.'')), listening False),
    (Some (\<lambda>fsys. route fsys (simple_router (env_sort env) ''..'')), listening False)]"
  using assms
  by (simp add: static_main_def andthen_Inr_iff listen_with_Inr simple_router_eq locations_router_eq)

text \<open>Each of them has servers that listen.\<close>

lemma rest_main_Inr:
  "rest_main env = Inr apps \<Longrightarrow> apps = [(Some (\<lambda>fsys. route fsys (rest_router (env_sort env))), listening False)]"
  by (simp add: rest_main_def andthen_Inr_iff listen_with_Inr)

lemma complete_main_Inr:
  "complete_main env = Inr apps \<Longrightarrow>
     apps = [(Some (\<lambda>fsys. route fsys (complete_router (env_sort env))), listening False)]"
  by (simp add: complete_main_def andthen_Inr_iff listen_with_Inr)

lemmas example_servers = rest_main_Inr complete_main_Inr static_main_Inr https_static_main_Inr

lemma example_servers_listen:
  assumes "Inr apps \<in> {rest_main env, complete_main env, static_main env, https_static_main env}"
  shows "listening_apps apps \<and> apps \<noteq> []"
  using assms by (auto simp: listening_apps_def dest!: example_servers [OF sym])

lemma example_setup_code:
  "Inl code \<in> {rest_main env, complete_main env, static_main env, https_static_main env} \<Longrightarrow> code = 1"
  unfolding rest_main_def complete_main_def static_main_def https_static_main_def
  by (auto dest: exit_code_Inl [OF sym])


subsection \<open>Properties\<close>

text \<open>
  C38 (rest_api): the program of \<^verbatim>\<open>rest.cpp\<close> answers every call of its interface, in whatever encoding
  the client writes its path, by the resource made for it, with the status, media type and text of
  that call; the parameters and the last values of the query string are those of the client.
\<close>

theorem rest_api:
  assumes "std_sort srt" "call_ok a" "url_decode (req_uri req) = (True, call_path a)" "path_ok (call_path a)"
    and "req_method req = call_method a"
  shows "route fsys (rest_router srt) req rep = Inr (text_reply (call_answer a) rep)"
proof -
  have "routed_method req = call_method a"
    using assms(5) call_method_cases [of a] by (auto simp: routed_method_def)
  from route_call [OF assms(1-4) this] show ?thesis .
qed

theorem rest_api_witness:
  "route (\<lambda>t p. Inr Missing) (rest_router insertion_sort) (request_of ''GET'' ''/greet/bob/r%6fme'' 1 0 []) (stock_reply ok) =
     Inr (text_reply (ok, ''text/plain'', ''Hi, bob from rome!'' @ [LF]) (stock_reply ok))"
proof -
  have "url_decode (req_uri (request_of ''GET'' ''/greet/bob/r%6fme'' 1 0 [])) = (True, call_path (Greet ''bob'' ''rome''))"
    by code_simp
  moreover have "path_ok (call_path (Greet ''bob'' ''rome''))"
    by (simp add: path_ok_def sublist_Cons_right)
  moreover have "call_ok (Greet ''bob'' ''rome'')" by (simp add: path_segment_def)
  ultimately show ?thesis
    using rest_api [OF entry_sort.std_sort_axioms, of "Greet ''bob'' ''rome''"]
    by (simp add: call_method_def request_of_def)
qed

text \<open>
  In \<^verbatim>\<open>complete.cpp\<close> the path \<^verbatim>\<open>/books\<close>, with or without a slash or a query string, is
  answered by the function, and every other path by the directory, although the directory was added
  first and its location is a prefix of every path.
\<close>

theorem complete_dispatch:
  assumes "std_sort srt" "url_decode (req_uri req) = (True, p)" "path_ok p" "req_method req \<in> {''GET'', ''HEAD''}"
  shows "route fsys (complete_router srt) req rep =
    (if fst (split_string p (CHR ''?'')) \<in> {''/books'', ''/books/''}
     then Inr (text_reply (ok, ''text/plain'', ''Hello, get api!'' @ [LF]) rep)
     else andthen (serve_static fsys ''.'' ''/'' p req rep) (\<lambda>(m, r). Inr r))"
proof -
  have "routed_method req = ''GET''" using assms(4) by (auto simp: routed_method_def)
  from route_complete [OF assms(1-3) this] show ?thesis .
qed

theorem complete_dispatch_witness:
  "route (\<lambda>t p. Inr Missing) (complete_router insertion_sort) (request_of ''GET'' ''/books?a=b'' 1 0 []) (stock_reply ok) =
     Inr (text_reply (ok, ''text/plain'', ''Hello, get api!'' @ [LF]) (stock_reply ok))"
proof -
  have "url_decode (req_uri (request_of ''GET'' ''/books?a=b'' 1 0 [])) = (True, ''/books?a=b'')"
    "split_string ''/books?a=b'' (CHR ''?'') = (''/books'', ''a=b'')"
    by code_simp+
  moreover have "path_ok ''/books?a=b''" by (simp add: path_ok_def sublist_Cons_right)
  ultimately show ?thesis
    using complete_dispatch [OF entry_sort.std_sort_axioms, of "request_of ''GET'' ''/books?a=b'' 1 0 []"]
    by (simp add: request_of_def)
qed

text \<open>
  C39 (https_static_redirects): a client of the plain server of \<^verbatim>\<open>https_static.cpp\<close> that sends a request is
  sent to the HTTPS server, at the host that it asked for without its port and with the URI that it
  asked for, whatever happens on the other server; nothing in the request can add a header line to the
  reply. Without a host it gets the 400 page.
\<close>

theorem https_static_redirects:
  assumes "https_static_main env = Inr apps" "prun (launched False apps) evs p"
    and "pstep p (On 1 (Written i success n)) p'"
    and "method_ok m" "uri_ok u" "number_ok vmaj" "number_ok vmin"
    and "version_fits vmaj" "version_fits vmin" "lines_ok False ls"
    and "bytes_in i (events_of 1 evs) = request_text m u vmaj vmin ls @ rest"
  shows "\<exists>host rep c. host = get_header (request_of m u (int (decimal vmaj)) (int (decimal vmin)) ls) ''host'' \<and>
    rep = (if host = [] then stock_reply bad_request
      else (stock_reply moved_permanently)\<lparr>rep_headers := rep_headers (stock_reply moved_permanently) @
        [\<lparr>h_name = ''Location'', h_value = ''https://'' @ takeWhile (\<lambda>c. c \<noteq> CHR '':'') host @ '':7000'' @ u\<rparr>]\<rparr>) \<and>
    objects (servers p' ! 1) i = Some c \<and> sent c = wire rep \<and> \<not> socket_open c \<and> framed rep \<and> headers_ok rep"
proof -
  note apps = https_static_main_Inr [OF assms(1)]
  have "listening_apps apps" by (auto simp: apps listening_apps_def)
  from process_gets_reply [OF assms(2) this assms(3-11)]
  obtain c where "objects (servers p' ! 1) i = Some c" "\<not> socket_open c"
    "sent c = wire (redirect_reply (request_of m u (int (decimal vmaj)) (int (decimal vmin)) ls))"
    by (auto simp: apps handle_request_def)
  moreover have "request_ok (request_of m u (int (decimal vmaj)) (int (decimal vmin)) ls)"
    using parse_request_fits [OF assms(4-10), of rest] parsed_request_ok by blast
  ultimately show ?thesis
    using redirect_reply_ok [of "request_of m u (int (decimal vmaj)) (int (decimal vmin)) ls"]
    by (auto simp: redirect_reply_eq request_of_def)
qed

definition https_static_apps :: "app list" where
  "https_static_apps = [(Some (\<lambda>fsys. route fsys (resources_after insertion_sort [(''/'', static_content ''.'')])), listening True),
    (Some (\<lambda>fsys req rep. Inr (redirect_reply req)), listening False)]"

lemma https_static_quiet: "https_static_main quiet_environment = Inr https_static_apps"
  by (simp add: https_static_main_def andthen_Inr_iff listen_with_Inr listen_quiet construct_https_Inr
      https_static_apps_def) (simp add: quiet_environment_def)

theorem https_static_redirects_witness:
  "\<exists>c. objects (written_server (redirect_reply (request_of ''GET'' ''/'' 1 0 []))) 0 = Some c \<and>
     sent c = wire (stock_reply bad_request) \<and> \<not> socket_open c"
proof -
  have k: "1 < length https_static_apps" "https_static_apps ! 1 = (Some (\<lambda>fsys req rep. Inr (redirect_reply req)), listening False)"
    "handle_request (Some (\<lambda>fsys req rep. Inr (redirect_reply req))) ((\<lambda>t p. Inr Missing) :: file_history) (request_of ''GET'' ''/'' 1 0 []) empty_reply =
       Inr (redirect_reply (request_of ''GET'' ''/'' 1 0 []))"
    by (simp_all add: https_static_apps_def handle_request_def)
  have no_host: "get_header (request_of ''GET'' ''/'' 1 0 []) ''host'' = []" by code_simp
  have "servers (with_server 1 sv (launched False https_static_apps)) ! 1 = sv" for sv
    using k(1) by (simp add: with_server_def launched_def)
  with https_static_redirects [OF https_static_quiet prun_hello [OF k] hello_request_ok(1-7) hello_bytes]
  show ?thesis by (auto simp: hello_request_ok(8,9) no_host)
qed


text \<open>
  C24 (examples_return): an example program returns only if its set-up throws, with exit code 1 and before any
  handler has run. Once its servers listen it never returns, whatever clients send and whatever its
  handlers throw: every server always waits for its next client.
\<close>

theorem examples_return:
  assumes "rest_returns env evs code \<or> complete_returns env evs code \<or> static_returns env evs code \<or>
    https_static_returns env evs code"
  shows "code = 1 \<and> evs = []"
proof -
  let ?starts = "{rest_main env, complete_main env, static_main env, https_static_main env}"
  obtain start where start: "start \<in> ?starts" "main_returns False start evs code"
    using assms unfolding example_returns_defs by blast
  from unattended_main [OF start(2)] start(1) example_servers_listen
  have "start = Inl code" "evs = []" by blast+
  with start(1) show ?thesis using example_setup_code [of code env] by simp
qed

text \<open>A port that is taken\<close>

definition busy_port :: environment where
  "busy_port = quiet_environment\<lparr>env_net := (env_net quiet_environment)\<lparr>net_throws :=
     (\<lambda>c. if c = Listen then Some (System_error) else None)\<rparr>\<rparr>"

theorem examples_return_witness: "\<exists>code. rest_returns busy_port [] code \<and> code = 1"
proof -
  have "rest_main busy_port = Inl 1"
    by (simp add: rest_main_def exit_code_def listen_with_def listen_def busy_port_def quiet_environment_def
      quiet_network_def)
  then have r: "rest_returns busy_port [] 1" by (simp add: rest_returns_def main_returns_def)
  with examples_return [of busy_port "[]" 1] show ?thesis by blast
qed

end
