(* ===== verification/Fuzz_Targets.thy ===== *)
theory Fuzz_Targets
  imports Mime_Types Request_Grammar Path_Router
begin

section \<open>The fuzz targets (\<open>fuzz_test\<close>)\<close>

text \<open>
  The three drivers that a fuzzer runs on inputs of its choice. What a fuzzer looks for, a crash, is a
  value here: \<open>None\<close> for a trap or undefined behaviour, \<open>Inl\<close> for an exception that leaves the driver.
  Two of the drivers are proved never to crash, the third exactly on the inputs of
  \<open>parser_undefined_iff\<close>.
\<close>

definition fuzz_mime_types :: "string \<Rightarrow> int option" where
  "fuzz_mime_types input = (let ext = extension_to_type input in if ext = [] then None else Some 0)"

text \<open>The request of this driver is not initialised: its version numbers are whatever the memory holds.\<close>

definition fuzz_request_parser :: "int \<Rightarrow> int \<Rightarrow> string \<Rightarrow> int option" where
  "fuzz_request_parser maj mnr input =
     map_option (\<lambda>x. 0) (parse method_start
       \<lparr>req_method = [], req_uri = [], http_version_major = maj, http_version_minor = mnr, req_headers = []\<rparr> input)"

definition no_answer :: handler_fn where
  "no_answer req os = Inr os"

definition fuzz_routes :: "string list" where
  "fuzz_routes = [''/foo'', ''/foo/bar'', ''/bar'', ''/bar/foo/aaa'', ''/bar/foo/bbb'', ''/bar/foo/bbb/ccc'', ''/foo/bar/aaa'']"

definition GetRouter :: "sorter \<Rightarrow> router" where
  "GetRouter srt = resources_after srt (map (\<lambda>loc. (loc, get no_answer)) fuzz_routes)"

text \<open>The request and the reply of this driver are static: they are those of the call before.\<close>

definition fuzz_router :: "sorter \<Rightarrow> file_history \<Rightarrow> http_request \<times> reply \<Rightarrow> string \<Rightarrow> exn + http_request \<times> reply" where
  "fuzz_router srt fsys st input =
     (let req = (fst st)\<lparr>req_method := ''GET'', http_version_major := 1, http_version_minor := 1,
            req_headers := [], req_uri := input\<rparr> in
      map_sum id (\<lambda>rep. (req, rep)) (route fsys (GetRouter srt) req (snd st)))"

fun fuzz_router_all :: "sorter \<Rightarrow> file_history \<Rightarrow> http_request \<times> reply \<Rightarrow> string list \<Rightarrow> exn + http_request \<times> reply" where
  "fuzz_router_all srt fsys st [] = Inr st"
| "fuzz_router_all srt fsys st (inp # inps) =
     andthen (fuzz_router srt fsys st inp) (\<lambda>st. fuzz_router_all srt fsys st inps)"


subsection \<open>The parser does not read the version numbers that it is given\<close>

definition before_version :: "parser_state \<Rightarrow> bool" where
  "before_version s \<longleftrightarrow> s \<in> {method_start, method_s, uri_s, http_version_h, http_version_t_1,
     http_version_t_2, http_version_p, http_version_slash}"

definition with_versions :: "int \<Rightarrow> int \<Rightarrow> parser_state \<Rightarrow> http_request \<Rightarrow> http_request" where
  "with_versions a b s r = (if before_version s then r\<lparr>http_version_major := a, http_version_minor := b\<rparr> else r)"

lemma consume_with_versions:
  "consume s (with_versions a b s r) c = map_option (\<lambda>(v, s', r'). (v, s', with_versions a b s' r')) (consume s r c)"
  if "before_version s"
  using that by (cases s) (simp_all add: with_versions_def before_version_def consume_defs)

lemma consume_after_version:
  "consume s r c = Some (v, s', r') \<Longrightarrow> \<not> before_version s \<Longrightarrow> \<not> before_version s'"
  by (cases s)
    (auto simp: before_version_def consume_defs Option.bind_eq_Some_conv split: if_splits)

lemma parse_after_version:
  "parse s r cs = Some (v, rest, s', r') \<Longrightarrow> \<not> before_version s \<Longrightarrow> \<not> before_version s'"
proof (induction cs arbitrary: s r)
  case (Cons c cs)
  then obtain v1 s1 r1 where c: "consume s r c = Some (v1, s1, r1)"
    by (auto simp: Option.bind_eq_Some_conv)
  have "\<not> before_version s1" by (rule consume_after_version [OF c Cons.prems(2)])
  with Cons.IH [of s1 r1] Cons.prems(1) c show ?case by (auto split: if_splits)
qed simp

lemma parse_with_versions:
  "parse s (with_versions a b s r) cs =
     map_option (\<lambda>(v, rest, s', r'). (v, rest, s', with_versions a b s' r')) (parse s r cs)"
proof (induction cs arbitrary: s r)
  case (Cons c cs)
  show ?case
  proof (cases "before_version s")
    case True
    then show ?thesis
      by (cases "consume s r c") (auto simp: consume_with_versions Cons.IH)
  next
    case False
    then have "with_versions a b s r = r" by (simp add: with_versions_def)
    moreover have "map_option (\<lambda>(v, rest, s', r'). (v, rest, s', with_versions a b s' r')) (parse s r (c # cs)) =
        parse s r (c # cs)"
    proof (cases "parse s r (c # cs)")
      case (Some x)
      then obtain v rest s' r' where x: "x = (v, rest, s', r')" "parse s r (c # cs) = Some (v, rest, s', r')"
        by (cases x) auto
      from parse_after_version [OF x(2) False] show ?thesis
        by (simp add: Some x(1) with_versions_def del: parse.simps)
    qed (simp del: parse.simps)
    ultimately show ?thesis by (simp del: parse.simps)
  qed
qed simp

lemma consume_good: "consume s r c = Some (good, s', r') \<Longrightarrow> \<not> before_version s'"
  by (cases s)
    (auto simp: before_version_def consume_defs Option.bind_eq_Some_conv split: if_splits)

lemma parse_good_after_version:
  "parse s r cs = Some (good, rest, s', r') \<Longrightarrow> \<not> before_version s'"
proof (induction cs arbitrary: s r)
  case (Cons c cs)
  then obtain v1 s1 r1 where c: "consume s r c = Some (v1, s1, r1)"
    by (auto simp: Option.bind_eq_Some_conv)
  with Cons.IH [of s1 r1] Cons.prems consume_good [of s r c s1 r1] show ?case by (auto split: if_splits)
qed simp

text \<open>A request that was not initialised is parsed like one that was.\<close>

lemma parse_uninitialised:
  "parse method_start \<lparr>req_method = [], req_uri = [], http_version_major = a, http_version_minor = b, req_headers = []\<rparr> inp =
     map_option (\<lambda>(v, rest, s, r). (v, rest, s, with_versions a b s r)) (parse method_start empty_request inp)"
  using parse_with_versions [of method_start a b empty_request inp]
  by (simp add: with_versions_def before_version_def empty_request_def)


subsection \<open>The router of the driver\<close>

lemma fuzz_entries:
  "entries_for ''GET'' (map (\<lambda>loc. (loc, get no_answer)) locs) =
     map (\<lambda>loc. \<lparr>location = loc, entry_handler = dynamic_content ''GET'' no_answer\<rparr>) locs"
  by (induction locs) (simp_all add: entries_for_def get_def)

definition fuzz_path :: "string \<Rightarrow> string option" where
  "fuzz_path input = (case url_decode input of (decoded, p) \<Rightarrow> if decoded \<and> path_ok p then Some p else None)"

definition routed_path :: "string \<Rightarrow> bool" where
  "routed_path p \<longleftrightarrow> (\<exists>loc \<in> set fuzz_routes. fst (split_string p (CHR ''?'')) \<in> {loc, loc @ ''/''})"

text \<open>What the driver leaves in its reply\<close>

definition fuzz_answer :: "string \<Rightarrow> reply \<Rightarrow> reply" where
  "fuzz_answer input rep =
     (case fuzz_path input of
        None \<Rightarrow> stock_reply bad_request
      | Some p \<Rightarrow>
          if routed_path p
          then rep\<lparr>content := [], status := ok, rep_headers := body_headers [] ''text/plain''\<rparr>
          else stock_reply not_found)"

lemma serve_no_answer:
  assumes "fst (match_pattern loc (fst (split_string p (CHR ''?''))))"
  shows "serve_entry fsys \<lparr>location = loc, entry_handler = dynamic_content ''GET'' no_answer\<rparr> p req rep =
    Inr (True, rep\<lparr>content := [], status := ok, rep_headers := body_headers [] ''text/plain''\<rparr>)"
  using assms
  by (simp add: serve_entry.simps serve_dynamic_def case_prod_beta no_answer_def new_stream_def body_headers_def)

lemma fuzz_takes:
  assumes "loc \<in> set fuzz_routes"
  shows "takes \<lparr>location = loc, entry_handler = dynamic_content m h\<rparr> p \<longleftrightarrow>
    fst (split_string p (CHR ''?'')) \<in> {loc, loc @ ''/''}"
proof -
  have "\<forall>loc \<in> set fuzz_routes. CHR '':'' \<notin> set loc" by (simp add: fuzz_routes_def)
  with assms show ?thesis by (simp add: takes.simps match_pattern_literal)
qed

lemma route_fuzz:
  assumes "std_sort srt" "req_method req = ''GET''"
  shows "route fsys (GetRouter srt) req rep = Inr (fuzz_answer (req_uri req) rep)"
proof -
  obtain d p where u: "url_decode (req_uri req) = (d, p)" by fastforce
  show ?thesis
  proof (cases "d \<and> path_ok p")
    case False
    with u show ?thesis
      by (cases d) (simp_all add: fuzz_answer_def fuzz_path_def route_bad_uri route_bad_path [of req p])
  next
    case True
    with u have p: "url_decode (req_uri req) = (True, p)" "path_ok p" by simp_all
    have m: "routed_method req = ''GET''" using assms(2) by (simp add: routed_method_def)
    let ?adds = "map (\<lambda>loc. (loc, get no_answer)) fuzz_routes"
    show ?thesis
    proof (cases "routed_path p")
      case False
      then have "route fsys (resources_after srt ?adds) req rep = Inr (stock_reply not_found)"
        by (intro std_sort.route_none [OF assms(1) p]) (auto simp: m fuzz_entries fuzz_takes routed_path_def)
      with False p show ?thesis by (simp add: GetRouter_def fuzz_answer_def fuzz_path_def)
    next
      case True
      then obtain loc where loc: "loc \<in> set fuzz_routes" "fst (split_string p (CHR ''?'')) \<in> {loc, loc @ ''/''}"
        by (auto simp: routed_path_def)
      let ?e = "\<lparr>location = loc, entry_handler = dynamic_content ''GET'' no_answer\<rparr>"
      have "?e \<in> set (entries_for (routed_method req) ?adds)"
        using loc(1) by (simp add: m fuzz_entries)
      moreover have "takes ?e p" using loc by (simp add: fuzz_takes)
      ultimately obtain e' where e': "e' \<in> set (entries_for (routed_method req) ?adds)" "takes e' p"
        "route fsys (resources_after srt ?adds) req rep = andthen (serve_entry fsys e' p req rep) (\<lambda>(m, r). Inr r)"
        using std_sort.route_first [OF assms(1) p, of ?e ?adds fsys rep] by blast
      then obtain loc' where "e' = \<lparr>location = loc', entry_handler = dynamic_content ''GET'' no_answer\<rparr>"
        by (auto simp: m fuzz_entries)
      with e'(2,3) serve_no_answer [of loc' p fsys req rep] True p show ?thesis
        by (simp add: takes.simps GetRouter_def fuzz_answer_def fuzz_path_def)
    qed
  qed
qed

lemma fuzz_router_answer:
  assumes "std_sort srt"
  shows "\<exists>req. fuzz_router srt fsys st input = Inr (req, fuzz_answer input (snd st))"
  using route_fuzz [OF assms] by (simp add: fuzz_router_def Let_def)

lemma fuzz_answer_fresh: "fuzz_answer input rep = fuzz_answer input rep'"
  by (simp add: fuzz_answer_def split: option.split)

lemma fuzz_router_all_snoc:
  "fuzz_router_all srt fsys st (inps @ [inp]) =
     andthen (fuzz_router_all srt fsys st inps) (\<lambda>st. fuzz_router srt fsys st inp)"
proof (induction inps arbitrary: st)
  case Nil
  show ?case by (cases "fuzz_router srt fsys st inp") simp_all
next
  case (Cons i inps)
  then show ?case by (cases "fuzz_router srt fsys st i") simp_all
qed

lemma fuzz_router_all_returns:
  assumes "std_sort srt"
  shows "\<exists>st'. fuzz_router_all srt fsys st inps = Inr st'"
proof (induction inps rule: rev_induct)
  case (snoc inp inps)
  then obtain st' where "fuzz_router_all srt fsys st inps = Inr st'" by blast
  with fuzz_router_answer [OF assms, of fsys st' inp] show ?case by (auto simp: fuzz_router_all_snoc)
qed simp

lemma fuzz_mime_types_safe: "fuzz_mime_types input = Some 0"
  by (simp add: fuzz_mime_types_def extension_to_type_printable)


subsection \<open>Properties\<close>

text \<open>
  C40 (uninitialised_request): the parser never reads what it did not write: with a request whose version
  numbers are not initialised it accepts the same inputs, with the same request as result, and runs
  into undefined behaviour on the same inputs, those with an overlong version number. So the driver
  of the parser crashes on these and no others.
\<close>

theorem uninitialised_request:
  "(fuzz_request_parser a b inp = None \<longleftrightarrow> overlong_major inp \<or> overlong_minor inp) \<and>
   (parse method_start \<lparr>req_method = [], req_uri = [], http_version_major = a, http_version_minor = b, req_headers = []\<rparr> inp =
      Some (good, rest, s, r) \<longleftrightarrow> parse method_start empty_request inp = Some (good, rest, s, r))"
proof
  show "fuzz_request_parser a b inp = None \<longleftrightarrow> overlong_major inp \<or> overlong_minor inp"
    by (simp add: fuzz_request_parser_def parse_uninitialised parse_undefined)
next
  show "parse method_start \<lparr>req_method = [], req_uri = [], http_version_major = a, http_version_minor = b, req_headers = []\<rparr> inp =
      Some (good, rest, s, r) \<longleftrightarrow> parse method_start empty_request inp = Some (good, rest, s, r)"
    by (auto simp: parse_uninitialised with_versions_def dest: parse_good_after_version)
qed

text \<open>
  Whatever the inputs of the driver of the router, it never throws; and
  although its request and its reply are kept from one call to the next, the last reply depends on
  the last input alone: an empty 200 page for one of the seven paths, else the 404 or the 400 page.
\<close>

theorem fuzz_router_stateless:
  assumes "std_sort srt"
  shows "\<exists>req. fuzz_router_all srt fsys st (inps @ [inp]) = Inr (req, fuzz_answer inp rep)"
proof -
  obtain st' where "fuzz_router_all srt fsys st inps = Inr st'"
    using fuzz_router_all_returns [OF assms] by blast
  with fuzz_router_answer [OF assms, of fsys st' inp] fuzz_answer_fresh [of inp "snd st'" rep]
  show ?thesis by (simp add: fuzz_router_all_snoc)
qed

theorem fuzz_router_stateless_witness:
  "\<exists>req. fuzz_router_all insertion_sort (\<lambda>t p. Inr Missing) (empty_request, stock_reply not_found) [''/bar'', ''%'', ''/foo?x''] =
     Inr (req, \<lparr>status = ok, rep_headers = body_headers [] ''text/plain'', content = []\<rparr>)"
proof -
  have "url_decode ''/foo?x'' = (True, ''/foo?x'')" "split_string ''/foo?x'' (CHR ''?'') = (''/foo'', ''x'')"
    by code_simp+
  moreover have "path_ok ''/foo?x''" by (simp add: path_ok_def sublist_Cons_right)
  ultimately have "fuzz_answer ''/foo?x'' (stock_reply ok) = \<lparr>status = ok, rep_headers = body_headers [] ''text/plain'', content = []\<rparr>"
    by (simp add: fuzz_answer_def fuzz_path_def routed_path_def fuzz_routes_def stock_reply_def)
  with fuzz_router_stateless [OF entry_sort.std_sort_axioms, of "\<lambda>t p. Inr Missing" "(empty_request, stock_reply not_found)"
      "[''/bar'', ''%'']" "''/foo?x''" "stock_reply ok"]
  show ?thesis by simp
qed

end
