(* ===== verification/Unit_Tests.thy ===== *)
theory Unit_Tests
  imports Example_Apps
begin

section \<open>The unit tests (\<open>test/tests.cpp\<close>)\<close>

text \<open>
  The test cases of the repository as propositions about the model, and the proof that they hold: on the
  inputs its authors chose the model does what they expect of the code. A test case is one definition,
  a section of it one conjunct. Where an order that the standard leaves open could matter, in the test of the
  router, the expectations are proved for every implementation of \<^verbatim>\<open>std::sort\<close>.
\<close>

definition test_split_string :: bool where
  "test_split_string \<longleftrightarrow>
     split_string ''hello?world'' (CHR ''?'') = (''hello'', ''world'') \<and>
     split_string ''helloworld'' (CHR ''?'') = (''helloworld'', []) \<and>
     split_string ''hello?world?again'' (CHR ''?'') = (''hello'', ''world?again'') \<and>
     split_string [] (CHR ''?'') = ([], []) \<and>
     split_string ''?helloworld'' (CHR ''?'') = ([], ''helloworld'') \<and>
     split_string ''helloworld?'' (CHR ''?'') = (''helloworld'', []) \<and>
     split_string ''hello/world'' (CHR ''/'') = (''hello'', ''world'')"

definition test_match_pattern :: bool where
  "test_match_pattern \<longleftrightarrow>
     match_pattern ''/user/profile'' ''/user/profile'' = (True, Map.empty) \<and>
     match_pattern ''/user/:id/profile'' ''/user/123/profile'' = (True, [''id'' \<mapsto> ''123'']) \<and>
     match_pattern ''/user/:id/post/:postId'' ''/user/123/post/456'' =
       (True, [''id'' \<mapsto> ''123'', ''postId'' \<mapsto> ''456'']) \<and>
     \<not> fst (match_pattern ''/user/:id/profile'' ''/user/123'') \<and>
     match_pattern ''/user/:id/profile'' ''/user/123/profile/'' = (True, [''id'' \<mapsto> ''123'']) \<and>
     \<not> fst (match_pattern ''/user/:id/profile'' ''/user/abc/settings'') \<and>
     \<not> fst (match_pattern [] ''/user/123/profile'') \<and>
     \<not> fst (match_pattern ''/user/:id/profile'' [])"

definition test_url_decode :: bool where
  "test_url_decode \<longleftrightarrow>
     url_decode ''HelloWorld'' = (True, ''HelloWorld'') \<and>
     url_decode ''Hello+World'' = (True, ''Hello World'') \<and>
     url_decode ''Hello%20World'' = (True, ''Hello World'') \<and>
     url_decode ''%48%65%6C%6C%6F%20%57%6F%72%6C%64'' = (True, ''Hello World'') \<and>
     \<not> fst (url_decode ''Hello%2World'') \<and>
     \<not> fst (url_decode ''Hello%2GWorld'') \<and>
     url_decode [] = (True, []) \<and>
     \<not> fst (url_decode ''HelloWorld%'') \<and>
     \<not> fst (url_decode ''HelloWorld%2'')"

definition test_mime_types :: bool where
  "test_mime_types \<longleftrightarrow>
     map extension_to_type [''.gif'', ''.htm'', ''.html'', ''.jpg'', ''.png'', ''.unk''] =
       [''image/gif'', ''text/html'', ''text/html'', ''image/jpeg'', ''image/png'', ''text/plain'']"

text \<open>\<^verbatim>\<open>std::equal\<close> compares the bytes of the buffer with as many of the string.\<close>

definition CheckEqual :: "string \<Rightarrow> string \<Rightarrow> bool" where
  "CheckEqual b s \<longleftrightarrow> length b = length s \<and> b = take (length b) s"

definition test_reply :: bool where
  "test_reply \<longleftrightarrow>
     list_all2 CheckEqual (to_buffers \<lparr>status = ok, rep_headers = [
        \<lparr>h_name = ''Content-Length'', h_value = to_string (length ''body'')\<rparr>,
        \<lparr>h_name = ''Content-Type'', h_value = extension_to_type ''.html''\<rparr>], content = ''body''\<rparr>)
     [''HTTP/1.0 200 OK'' @ CRLF,
      ''Content-Length'', '': '', ''4'', CRLF,
      ''Content-Type'', '': '', ''text/html'', CRLF,
      CRLF,
      ''body'']"

definition test_parser :: bool where
  "test_parser \<longleftrightarrow>
     parse method_start empty_request
       (''GET /hello.htm HTTP/1.1'' @ CRLF @ ''Accept-Language: en-us'' @ CRLF @ CRLF) =
     Some (good, [], expecting_newline_3,
       \<lparr>req_method = ''GET'', req_uri = ''/hello.htm'', http_version_major = 1, http_version_minor = 1,
        req_headers = [\<lparr>h_name = ''Accept-Language'', h_value = ''en-us''\<rparr>]\<rparr>)"

text \<open>
  The router: a handler has an identifier; the test records its calls with the parameters in a vector,
  here the handler writes them.
\<close>

definition make_handler :: "string \<Rightarrow> handler_fn" where
  "make_handler i req os = Inr (put_text (i @ '': '' @ resource req ''1'' @ resource req ''2'') os)"

definition test_resources :: "(string \<times> handler) list" where
  "test_resources =
     [(''/foo/:1'', get (make_handler ''1'')),
      (''/foo/bar/:1'', get (make_handler ''2'')),
      (''/bar/:1/:2'', get (make_handler ''3'')),
      (''/bar/foo/aaa/:1'', get (make_handler ''4'')),
      (''/bar/foo/bbb/:1'', get (make_handler ''5'')),
      (''/bar/foo/bbb/ccc/:1'', get (make_handler ''6'')),
      (''/foo/bar/aaa/:1'', get (make_handler ''7''))]"

definition test_request :: "sorter \<Rightarrow> reply \<Rightarrow> string \<Rightarrow> string \<Rightarrow> exn + reply" where
  "test_request srt rep uri meth =
     route (\<lambda>t p. Inr Missing) (resources_after srt test_resources)
       (empty_request\<lparr>req_uri := uri, req_method := meth\<rparr>) rep"

definition called :: "string \<Rightarrow> reply \<Rightarrow> exn + reply" where
  "called call rep = Inr (text_reply (ok, ''text/plain'', call) rep)"

definition test_router :: "sorter \<Rightarrow> reply \<Rightarrow> bool" where
  "test_router srt rep \<longleftrightarrow>
     test_request srt rep ''/ddd'' ''GET'' = Inr (stock_reply not_found) \<and>
     test_request srt rep ''/bar/foo/xxx'' ''GET'' = called ''3: fooxxx'' rep \<and>
     test_request srt rep ''/bar/foo/aaa/zzz'' ''GET'' = called ''4: zzz'' rep \<and>
     test_request srt rep ''/bar/foo/bbb/xxx'' ''GET'' = called ''5: xxx'' rep \<and>
     test_request srt rep ''/bar/foo/bbb/ccc/zzz'' ''GET'' = called ''6: zzz'' rep \<and>
     test_request srt rep ''/foo/bar/xxx'' ''GET'' = called ''2: xxx'' rep \<and>
     test_request srt rep ''/foo/xxx'' ''GET'' = called ''1: xxx'' rep \<and>
     test_request srt rep ''/foo/bar/aaa/zzz'' ''GET'' = called ''7: zzz'' rep \<and>
     test_request srt rep ''/bar/foo/xxx'' ''PUT'' = Inr (stock_reply not_found)"

definition test_handler :: handler_fn where
  "test_handler req os = Inr
     (put_text (''QueryParam: '' @ query req ''param'' @ [LF])
     (put_text (''Resource2: '' @ resource req ''resource2'' @ [LF])
     (put_text (''Resource1: '' @ resource req ''resource1'' @ [LF]) os)))"

definition test_served :: "string \<Rightarrow> reply \<Rightarrow> exn + bool \<times> reply" where
  "test_served body rep = Inr (True, rep\<lparr>content := body, status := ok, rep_headers := [
     \<lparr>h_name = ''Content-Length'', h_value = to_string (length body)\<rparr>,
     \<lparr>h_name = ''Content-Type'', h_value = ''text/plain''\<rparr>]\<rparr>)"

definition test_dynamic_content :: "http_request \<Rightarrow> reply \<Rightarrow> bool" where
  "test_dynamic_content req rep \<longleftrightarrow>
     serve_dynamic test_handler ''/foo/:resource1/:resource2'' ''/foo/res1/res2?param=value'' req rep =
       test_served (''Resource1: res1'' @ [LF] @ ''Resource2: res2'' @ [LF] @ ''QueryParam: value'' @ [LF]) rep \<and>
     serve_dynamic test_handler ''/foo/:resource1/:resource2'' ''/foo/res1/res2'' req rep =
       test_served (''Resource1: res1'' @ [LF] @ ''Resource2: res2'' @ [LF] @ ''QueryParam: '' @ [LF]) rep \<and>
     serve_dynamic test_handler ''/foo/res'' ''/foo/res?param=value'' req rep =
       test_served (''Resource1: '' @ [LF] @ ''Resource2: '' @ [LF] @ ''QueryParam: value'' @ [LF]) rep"


subsection \<open>The tests pass\<close>

lemma split_string_passes: test_split_string by code_simp
lemma url_decode_passes: test_url_decode by code_simp
lemma mime_types_pass: test_mime_types by code_simp
lemma reply_passes: test_reply by code_simp
lemma parser_passes: test_parser by code_simp

lemma match_pattern_passes: test_match_pattern
  by (simp add: test_match_pattern_def match_pattern_tokens)

lemma dynamic_content_passes: "test_dynamic_content req rep"
proof -
  have s: "split_string ''/foo/res1/res2?param=value'' (CHR ''?'') = (''/foo/res1/res2'', ''param=value'')"
    "split_string ''/foo/res1/res2'' (CHR ''?'') = (''/foo/res1/res2'', [])"
    "split_string ''/foo/res?param=value'' (CHR ''?'') = (''/foo/res'', ''param=value'')"
    "getlines (CHR ''&'') ''param=value'' = [''param=value'']"
    "split_string ''param=value'' (CHR ''='') = (''param'', ''value'')"
    by code_simp+
  then show ?thesis
    by (simp add: test_dynamic_content_def serve_dynamic_def match_pattern_tokens handle_query_parameters_def
        new_request_def new_stream_def put_text_def test_handler_def test_served_def add_queryvalue_def
        resource_def query_def Let_def)
qed


text \<open>The router test: which resources take a path, and the one of them with the longest location\<close>

definition test_table :: "(string \<times> string) list" where
  "test_table = [(''/foo/:1'', ''1''), (''/foo/bar/:1'', ''2''), (''/bar/:1/:2'', ''3''),
     (''/bar/foo/aaa/:1'', ''4''), (''/bar/foo/bbb/:1'', ''5''), (''/bar/foo/bbb/ccc/:1'', ''6''),
     (''/foo/bar/aaa/:1'', ''7'')]"

definition test_entry :: "string \<times> string \<Rightarrow> resource_entry" where
  "test_entry li = \<lparr>location = fst li, entry_handler = get (make_handler (snd li))\<rparr>"

lemma test_entries: "entries_for ''GET'' test_resources = map test_entry test_table"
  by (simp add: entries_for_def test_resources_def test_table_def test_entry_def get_def)

definition param_of :: "params \<Rightarrow> string \<Rightarrow> string" where
  "param_of ps k = (case ps k of Some v \<Rightarrow> v | None \<Rightarrow> [])"

lemma test_request_called:
  assumes "std_sort srt" "url_decode uri = (True, uri)" "path_ok uri" "split_string uri (CHR ''?'') = (uri, [])"
    and "(loc, i) \<in> set test_table" "match_pattern loc uri = (True, ps)"
    and "list_all (\<lambda>li. fst (match_pattern (fst li) uri) \<and> length loc \<le> length (fst li) \<longrightarrow> li = (loc, i)) test_table"
  shows "test_request srt rep uri ''GET'' = called (i @ '': '' @ param_of ps ''1'' @ param_of ps ''2'') rep"
proof -
  let ?req = "empty_request\<lparr>req_uri := uri, req_method := ''GET''\<rparr>"
  have m: "routed_method ?req = ''GET''" by (simp add: routed_method_def)
  have "route (\<lambda>t p. Inr Missing) (resources_after srt test_resources) ?req rep =
      andthen (serve_entry (\<lambda>t p. Inr Missing) (test_entry (loc, i)) uri ?req rep) (\<lambda>(m, r). Inr r)"
  proof (rule std_sort.route_only [OF assms(1)], unfold m test_entries)
    show "url_decode (req_uri ?req) = (True, uri)" "path_ok uri" using assms(2,3) by simp_all
    show "test_entry (loc, i) \<in> set (map test_entry test_table)" using assms(5) by auto
    show "takes (test_entry (loc, i)) uri" using assms(4,6) by (simp add: test_entry_def get_def takes_dynamic)
    fix x assume "x \<in> set (map test_entry test_table)" "takes x uri" "loc_len (test_entry (loc, i)) \<le> loc_len x"
    then show "x = test_entry (loc, i)"
      using assms(4,7) by (auto simp: test_entry_def get_def takes_dynamic loc_len_def list_all_iff)
  qed
  also have "serve_entry (\<lambda>t p. Inr Missing) (test_entry (loc, i)) uri ?req rep =
      Inr (True, text_reply (ok, ''text/plain'', i @ '': '' @ param_of ps ''1'' @ param_of ps ''2'') rep)"
    using assms(4,6)
    by (simp add: serve_entry.simps test_entry_def get_def serve_dynamic_def make_handler_def put_text_def
        handle_query_parameters_def new_request_def new_stream_def resource_def param_of_def text_reply_def
        body_headers_def)
  finally show ?thesis by (simp add: test_request_def called_def)
qed

lemma test_request_not_found:
  assumes "std_sort srt" "url_decode uri = (True, uri)" "path_ok uri" "meth \<noteq> ''HEAD''"
    and "\<forall>e \<in> set (entries_for meth test_resources). \<not> takes e uri"
  shows "test_request srt rep uri meth = Inr (stock_reply not_found)"
  using assms(5) unfolding test_request_def
  by (intro std_sort.route_none [OF assms(1), where p = uri])
    (use assms(2-4) in \<open>simp_all add: routed_method_def\<close>)

text \<open>The calls that the test makes, the resources that are to serve them and their parameters\<close>

definition test_calls :: "(string \<times> string \<times> string \<times> params) list" where
  "test_calls =
     [(''/bar/foo/xxx'', ''/bar/:1/:2'', ''3'', [''1'' \<mapsto> ''foo'', ''2'' \<mapsto> ''xxx'']),
      (''/bar/foo/aaa/zzz'', ''/bar/foo/aaa/:1'', ''4'', [''1'' \<mapsto> ''zzz'']),
      (''/bar/foo/bbb/xxx'', ''/bar/foo/bbb/:1'', ''5'', [''1'' \<mapsto> ''xxx'']),
      (''/bar/foo/bbb/ccc/zzz'', ''/bar/foo/bbb/ccc/:1'', ''6'', [''1'' \<mapsto> ''zzz'']),
      (''/foo/bar/xxx'', ''/foo/bar/:1'', ''2'', [''1'' \<mapsto> ''xxx'']),
      (''/foo/xxx'', ''/foo/:1'', ''1'', [''1'' \<mapsto> ''xxx'']),
      (''/foo/bar/aaa/zzz'', ''/foo/bar/aaa/:1'', ''7'', [''1'' \<mapsto> ''zzz''])]"

lemma test_uris:
  "list_all (\<lambda>uri. url_decode uri = (True, uri) \<and> split_string uri (CHR ''?'') = (uri, []))
     (''/ddd'' # map fst test_calls)"
  unfolding test_calls_def by (simp; code_simp)

lemma test_calls_served:
  "list_all (\<lambda>(uri, loc, i, ps). path_ok uri \<and> (loc, i) \<in> set test_table \<and> match_pattern loc uri = (True, ps) \<and>
     list_all (\<lambda>li. fst (match_pattern (fst li) uri) \<and> length loc \<le> length (fst li) \<longrightarrow> li = (loc, i)) test_table)
     test_calls"
  by (simp add: test_calls_def path_ok_def sublist_Cons_right test_table_def match_pattern_tokens)

lemma router_passes:
  assumes "std_sort srt"
  shows "test_router srt rep"
proof -
  have "test_request srt rep uri ''GET'' = called (i @ '': '' @ param_of ps ''1'' @ param_of ps ''2'') rep"
    if call: "(uri, loc, i, ps) \<in> set test_calls" for uri loc i ps
  proof -
    have "uri \<in> set (''/ddd'' # map fst test_calls)" using call by force
    from bspec [OF test_uris [unfolded list_all_iff] this]
    have "url_decode uri = (True, uri)" "split_string uri (CHR ''?'') = (uri, [])" by simp_all
    with bspec [OF test_calls_served [unfolded list_all_iff] call] show ?thesis
      by (intro test_request_called [OF assms, where loc = loc]) (simp_all add: list_all_iff)
  qed
  then have "list_all (\<lambda>(uri, loc, i, ps). test_request srt rep uri ''GET'' =
      called (i @ '': '' @ param_of ps ''1'' @ param_of ps ''2'') rep) test_calls"
    by (auto simp: list_all_iff)
  moreover have u: "url_decode uri = (True, uri)" "split_string uri (CHR ''?'') = (uri, [])"
    if "uri \<in> {''/ddd'', ''/bar/foo/xxx''}" for uri
    using that test_uris by (auto simp: test_calls_def)
  moreover have "test_request srt rep ''/ddd'' ''GET'' = Inr (stock_reply not_found)"
    by (rule test_request_not_found [OF assms])
      (simp_all add: u path_ok_def sublist_Cons_right test_entries test_table_def test_entry_def get_def
        takes_dynamic match_pattern_tokens)
  moreover have "test_request srt rep ''/bar/foo/xxx'' ''PUT'' = Inr (stock_reply not_found)"
    by (rule test_request_not_found [OF assms])
      (simp_all add: u path_ok_def sublist_Cons_right entries_for_def test_resources_def get_def)
  ultimately show ?thesis by (simp add: test_router_def test_calls_def param_of_def)
qed


subsection \<open>Properties\<close>

text \<open>
  The test cases of the repository hold of the model: on the inputs its authors chose, the
  functions, the parser, the router and dynamic content do what they expect; the router does so whatever
  \<^verbatim>\<open>std::sort\<close> does with resources whose locations are equally long, and whatever the reply held before.
\<close>

theorem unit_tests_pass:
  assumes "std_sort srt"
  shows "test_split_string \<and> test_match_pattern \<and> test_url_decode \<and> test_mime_types \<and> test_reply \<and>
    test_parser \<and> test_router srt rep \<and> test_dynamic_content req rep"
  using split_string_passes match_pattern_passes url_decode_passes mime_types_pass reply_passes
    parser_passes router_passes [OF assms] dynamic_content_passes by blast

theorem unit_tests_pass_witness: "test_router insertion_sort (stock_reply ok)"
  using unit_tests_pass [OF entry_sort.std_sort_axioms] by blast

end
