(* ===== verification/Spec2Isabelle.thy ===== *)
theory Spec2Isabelle
  imports Confinement Example_Apps Fuzz_Targets Unit_Tests
begin

text \<open>
  \<^bold>\<open>f16, a small HTTP/1.0 server library in C++: a model of its core and the proof that it is correct.\<close>

  \<^bold>\<open>The program.\<close> The library is in \<^verbatim>\<open>src/lib\<close>, the program \<^verbatim>\<open>f16server\<close> in \<^verbatim>\<open>src/server/main.cpp\<close>. An
  \<^verbatim>\<open>http_server\<close> accepts sockets and starts a connection for each. A connection reads until its
  \<^verbatim>\<open>request_parser\<close> has a verdict, calls the \<^verbatim>\<open>request_handler\<close> of the server, writes the reply and
  closes. The handler is, as a rule, a \<^verbatim>\<open>path_router\<close>: it decodes the URI, searches the resources of the
  method in order of decreasing length of location, and lets the first that matches fill the reply. A
  resource is a directory (\<^verbatim>\<open>static_content\<close>) or a function of the application (\<^verbatim>\<open>dynamic_content\<close>).

  \<^bold>\<open>The theories.\<close>
  \<^item> F16_Prelude: the operations of \<^verbatim>\<open>std::string\<close>, \<^verbatim>\<open>char\<close> and \<^verbatim>\<open>int\<close> that the code uses, decimal
    numerals, exceptions as the left side of a sum. \<^verbatim>\<open>char\<close> is signed (\<open>char_int\<close>), \<^verbatim>\<open>int\<close> has 32 bits and
    its overflow is the value \<open>None\<close>.
  \<^item> Url (\<^verbatim>\<open>url.cpp\<close>): \<open>url_decode\<close>, the loop over indices, against the relation \<open>url_encodes\<close>.
  \<^item> String_Util (\<^verbatim>\<open>string.hpp\<close>): \<open>split_string\<close> and \<open>match_pattern\<close>; a pattern is a list of tokens, and
    the matcher is proved against the paths that the tokens stand for.
  \<^item> Mime_Types (\<^verbatim>\<open>mime_types.cpp\<close>), Http_Header (\<^verbatim>\<open>header.hpp\<close>), Http_Request (\<^verbatim>\<open>http_request.hpp\<close>,
    \<^verbatim>\<open>request.hpp\<close>), Http_Reply (\<^verbatim>\<open>reply.cpp\<close>): the data, header look-up, stock replies and the bytes on
    the wire, which determine the reply.
  \<^item> Request_Parser (\<^verbatim>\<open>request_parser.cpp\<close>): the state machine, one definition for each case of the
    \<^verbatim>\<open>switch\<close>, and the locale \<open>incremental_reader\<close> that a connection relies on. Request_Grammar: the
    grammar of requests, and the proofs that the parser accepts exactly the texts of the grammar and runs into
    undefined behaviour exactly on version numbers that come within 48 of \<^verbatim>\<open>INT_MAX\<close>. Request_Verdict: what the
    other verdicts mean; the parser waits exactly on what can become a request, and rejects at the first byte
    that rules it out.
  \<^item> Filesystem: what is used of \<^verbatim>\<open>std::filesystem\<close>, on POSIX; the file system itself is a parameter, a history of
    states, of which each call that a request makes sees its own: other programs may change it in between.
    Static_Content (\<^verbatim>\<open>static_content.cpp\<close>) and Dynamic_Content (\<^verbatim>\<open>dynamic_content.cpp\<close>): the two
    kinds of resource. What static content may answer while files change is a theorem there; the loop that reads a
    file is there a second time, on a file that is written to meanwhile.
  \<^item> Path_Router (\<^verbatim>\<open>path_router.cpp\<close>, \<^verbatim>\<open>path_router.hpp\<close>): \<open>add\<close> and \<open>route\<close>. The locale \<open>std_sort\<close> is the
    contract of \<^verbatim>\<open>std::sort\<close>, \<open>entry_server\<close> and \<open>promising_server\<close> are that of a resource, with which the
    loop of the router is a search for the first match.
  \<^item> Connection (\<^verbatim>\<open>base_connection.hpp\<close>, \<^verbatim>\<open>plain_connection.cpp\<close>, \<^verbatim>\<open>ssl_connection.cpp\<close>,
    \<^verbatim>\<open>connection_manager.cpp\<close>, \<^verbatim>\<open>request_handler.cpp\<close>, \<^verbatim>\<open>http_server.cpp\<close>): the server as a step
    relation, one step for each completion handler that the \<^verbatim>\<open>io_context\<close> invokes. Connection_Invariant: what
    holds in every reachable state, and the locale \<open>promising_service\<close>, the contract of a handler.
    Connection_Runs: the length of a connection, clients that send in parts, the properties of one server.
    Connection_Spec: an abstract specification of a connection, which knows only the grammar, the handler and
    the answer, and the proof that the server implements it in both directions.
  \<^item> Process (the loop at the end of \<^verbatim>\<open>main.cpp\<close> and of the examples): several servers on one \<^verbatim>\<open>io_context\<close>,
    exceptions that leave \<^verbatim>\<open>run\<close> and are caught, the signal, the end of the process. Every run of a process
    projects to a run of each of its servers, so the theorems on one server hold in a process. A \<^verbatim>\<open>main\<close> is its
    set-up followed by the loop (\<open>main_returns\<close>).
  \<^item> Https_Server (\<^verbatim>\<open>https_server.cpp\<close>), Server_Main and Config_Server (\<^verbatim>\<open>main.cpp\<close>): TLS settings and
    the calls on the TLS context; the routers of the two modes of the program and the handler of a
    \<open>return\<close> section; the building of servers from a configuration, with every exception it may end in.
  \<^item> Confinement: two runs whose events differ in the world that the handlers see; the program does the same in
    both as long as they agree below the directories that it serves.
  \<^item> Example_Apps (\<^verbatim>\<open>src/examples\<close>): the four example programs and what they answer. Fuzz_Targets
    (\<^verbatim>\<open>fuzz_test\<close>): the three drivers, which are proved not to crash, or to crash on known inputs only.
    Unit_Tests (\<^verbatim>\<open>test/tests.cpp\<close>): the test cases, proved to hold of the model.
  \<^item> This theory: the properties that span them.

  \<^bold>\<open>Reading the model.\<close> A function with an out parameter returns it. A function that may throw returns \<open>Inl e\<close> or
  \<open>Inr\<close> its result. Loops are recursive functions with termination proofs, so every one of them returns:
  there is no fuel. The event loop, which need not end, is a step relation. Strings are lists of bytes.

  \<^bold>\<open>Hypotheses.\<close> \<open>std_sort srt\<close> is what the standard says of \<^verbatim>\<open>std::sort\<close>. The steps of Connection take from
  the documentation of asio that a handler is invoked only for an operation that was started, that a read
  brings at most the size of the buffer, and that a write without error has written everything. A read without error
  brings at least one byte where termination depends on it (\<open>brings_bytes\<close>). The process runs on one
  thread, as in the program and the examples. What throws while servers are set up is a parameter (\<open>environment\<close>).

  \<^bold>\<open>Not modelled.\<close> What asio and OpenSSL do on sockets and TLS; the texts that the JSON and command line
  libraries parse; logging and what is printed; exceptions that are not a \<^verbatim>\<open>std::exception\<close>; the rest of the
  program while it reads a file that grows as fast as it is read, on which its loop is proved not to end
  (\<open>growing_file_never_ends\<close>); memory exhaustion; paths on systems other than POSIX. What a handler of an application
  changes outside its reply is in the world of the next call, about which nothing is assumed.
\<close>

section \<open>From the bytes of a request to the bytes of its reply\<close>

text \<open>
  A server whose handler is a router. The world of a call holds the file system and whatever state the
  functions of the application keep: they may answer differently each time.
\<close>

definition router_service :: "('w \<Rightarrow> file_history) \<Rightarrow> ('w \<Rightarrow> router) \<Rightarrow> 'w request_handler" where
  "router_service fs R = set_service (\<lambda>w. route (fs w) (R w)) None"

lemma handle_router [simp]: "handle_request (router_service fs R) w req rep = route (fs w) (R w) req rep"
  by (simp add: handle_request_def router_service_def set_service_def)

text \<open>What the router promises if its resources set no media type with a line break\<close>

definition all_plain :: "('w \<Rightarrow> router) \<Rightarrow> bool" where
  "all_plain R \<longleftrightarrow> (\<forall>w m. \<forall>e \<in> set (entries_of (R w) m). entry_plain e)"

interpretation router_promise: promising_service "router_service fs R" "\<lambda>req rep. all_plain R \<longrightarrow> reply_safe req rep"
  for fs R
  by unfold_locales (auto simp: all_plain_def intro!: route_reply_safe)

text \<open>A site with an index page, which the simple mode serves\<close>

definition site :: file_history where
  "site t p = (if p = ''/srv/'' then Inr (Directory (Some []) (Inr [(''index.html'', Inr True)]))
     else if p = ''/srv/index.html'' then Inr (Regular (Some ''hi'')) else Inr Missing)"

definition site_router :: router where
  "site_router = simple_router insertion_sort ''/srv''"

definition index_reply :: reply where
  "index_reply = \<lparr>status = ok, rep_headers = body_headers ''hi'' ''text/html'', content = ''hi''\<rparr>"

lemma site_index: "web_file (site t) (path_append ''/srv'' (relative_path [])) = Some (''/srv/index.html'', ''hi'')"
  by (simp add: path_append_def relative_path_def is_absolute_def web_file_def c_str_def site_def)

lemma index_type: "extension_to_type (extension ''/srv/index.html'') = ''text/html''"
  by code_simp

lemma hi_length: "to_string (length ''hi'') = ''2''"
  by code_simp

lemma request_of_sel: "req_uri (request_of m u x y ls) = u" "routed_method (request_of ''GET'' u x y ls) = ''GET''"
  "req_method (request_of m u x y ls) = m"
  by (simp_all add: request_of_def routed_method_def)

lemma root_path: "url_decode ''/'' = (True, ''/'')" "path_ok ''/''"
  by (code_simp, simp add: path_ok_def sublist_Cons_right)

lemma serve_index:
  "serve_static site ''/srv'' ''/'' ''/'' (request_of ''GET'' ''/'' 1 0 []) empty_reply = Inr (True, index_reply)"
  using serve_static_web_file [where fsys = site and root = "''/srv''" and p = "[]" and loc = "''/''", OF site_index,
      of "request_of ''GET'' ''/'' 1 0 []" empty_reply]
  by (simp add: request_of_def empty_reply_def index_reply_def index_type)

lemma route_index:
  "route site site_router (request_of ''GET'' ''/'' 1 0 []) empty_reply = Inr index_reply"
  using simple_router_serves_root [OF entry_sort.std_sort_axioms, of "request_of ''GET'' ''/'' 1 0 []" "[]"]
  by (simp add: site_router_def root_path serve_index request_of_sel)

lemma site_router_plain: "e \<in> set (entries_of site_router m) \<Longrightarrow> entry_plain e"
  by (auto simp: site_router_def simple_router_entries [OF entry_sort.std_sort_axioms] split: if_splits)

text \<open>The program that serves the site in its simple mode\<close>

definition site_apps :: "app list" where
  "site_apps = [(Some (\<lambda>fsys. route fsys site_router), listening False)]"

lemma site_apps_simps:
  "0 < length site_apps" "site_apps ! 0 = (Some (\<lambda>fsys. route fsys site_router), listening False)"
  "handle_request (Some (\<lambda>fsys. route fsys site_router)) site (request_of ''GET'' ''/'' 1 0 []) empty_reply = Inr index_reply"
  by (simp_all add: site_apps_def handle_request_def route_index)

lemma quiet_sort: "std_sort (env_sort quiet_environment)"
  by (simp add: quiet_environment_def entry_sort.std_sort_axioms)

lemma start_simple: "start_servers quiet_environment (Serve ''/srv'' None None) = Inr site_apps"
  by (simp add: start_servers_Serve listen_quiet site_router_def site_apps_def) (simp add: quiet_environment_def)

text \<open>What a client gets of a file\<close>

lemma wire_file:
  "wire (empty_reply\<lparr>status := ok, content := data, rep_headers := body_headers data t\<rparr>) =
     ''HTTP/1.0 200 OK'' @ CRLF @ ''Content-Length: '' @ to_string (length data) @ CRLF @
     ''Content-Type: '' @ t @ CRLF @ CRLF @ data"
  by (simp add: wire_eq body_headers_def header_text_def)

lemma wire_index: "wire index_reply =
    ''HTTP/1.0 200 OK'' @ CRLF @ ''Content-Length: 2'' @ CRLF @ ''Content-Type: text/html'' @ CRLF @ CRLF @ ''hi''"
  using wire_file [of "''hi''" "''text/html''"] hi_length by (simp add: index_reply_def empty_reply_def)

text \<open>A client that gets the index page\<close>

lemma run_index:
  "run (router_service id (\<lambda>w. site_router)) (listening False) [Accepted success, Received 0 success hello site None]
     (answered_server index_reply)"
  by (rule run_answered) (simp add: route_index)

lemma step_index:
  "step (router_service id (\<lambda>w. site_router)) (answered_server index_reply)
     (Written 0 success (length (wire index_reply)))
     (on_write 0 success (length (wire index_reply)) (answered_server index_reply))"
  by (simp add: has_pending_def objects_answered after_read_def)

text \<open>A byte that the client escaped in a value splits it: the path is decoded before it is split.\<close>

lemma escaped_ampersand_splits:
  "query (handle_query_parameters
     (snd (split_string (snd (url_decode ''/q?k=a%26x=b'')) (CHR ''?''))) (new_request r)) ''x'' = ''b''"
proof -
  have u: "snd (split_string (snd (url_decode ''/q?k=a%26x=b'')) (CHR ''?'')) = query_text [(''k'', ''a''), (''x'', ''b'')]"
    by code_simp
  show ?thesis
    unfolding u by (simp add: handle_query_text params_ok_def query_def new_request_def del: query_text.simps)
qed


section \<open>Properties\<close>

text \<open>
  C1 (request_gets_reply): a client that has sent the text of a request, in whatever pieces, and
  whatever other clients did meanwhile, gets back the serialisation of the reply that the router
  computes for exactly that request, with the file system and the state of the application at the time of a
  read of its connection, and then its connection is closed.
\<close>

theorem request_gets_reply:
  assumes "method_ok m" "uri_ok u" "number_ok vmaj" "number_ok vmin"
    and "version_fits vmaj" "version_fits vmin" "lines_ok False ls"
    and "run (router_service fs R) (listening sec) evs sv"
    and "bytes_in i evs = request_text m u vmaj vmin ls @ rest"
    and "step (router_service fs R) sv (Written i success n) sv'"
  shows "\<exists>bytes w rep c. Received i success bytes w None \<in> set evs \<and>
    route (fs w) (R w) (request_of m u (int (decimal vmaj)) (int (decimal vmin)) ls) empty_reply = Inr rep \<and>
    objects sv' i = Some c \<and> sent c = wire rep \<and> \<not> socket_open c"
  using service_gets_reply [OF assms] by simp

theorem request_gets_reply_witness:
  "\<exists>c. objects (on_write 0 success (length (wire index_reply)) (answered_server index_reply)) 0 = Some c \<and>
     sent c = wire index_reply \<and> \<not> socket_open c"
proof -
  have ok: "method_ok ''GET''" "uri_ok ''/''" "number_ok ''1''" "number_ok ''0''" "version_fits ''1''"
    "version_fits ''0''" "lines_ok False []" by code_simp+
  have d: "int (decimal ''1'') = 1" "int (decimal ''0'') = 0" by code_simp+
  have "bytes_in 0 [Accepted success, Received 0 success hello site None] =
      request_text ''GET'' ''/'' ''1'' ''0'' [] @ []"
    by (simp add: bytes_in_def hello_def request_text_def version_text_def)
  from request_gets_reply [OF ok run_index this step_index] show ?thesis by (auto simp: d route_index)
qed

text \<open>
  Whatever bytes a client sends, a completed answer of a server with a
  router is the serialisation of a reply whose headers stay on their lines: no header line and no
  second response can be forged, as long as the application sets no media type with a line break.
\<close>

theorem no_response_splitting:
  assumes "run (router_service fs R) (listening sec) evs sv" "step (router_service fs R) sv (Written i success n) sv'"
    and "\<And>w m e. e \<in> set (entries_of (R w) m) \<Longrightarrow> entry_plain e"
  shows "\<exists>c rep. objects sv' i = Some c \<and> sent c = wire rep \<and> headers_ok rep"
proof -
  have "all_plain R" using assms(3) by (simp add: all_plain_def)
  with router_promise.written_promised [OF assms(1,2)] headers_ok_stock_reply show ?thesis
    unfolding reply_safe_def by metis
qed

theorem no_response_splitting_witness:
  "\<exists>c rep. objects (on_write 0 success (length (wire index_reply)) (answered_server index_reply)) 0 = Some c \<and>
     sent c = wire rep \<and> headers_ok rep"
  by (rule no_response_splitting [OF run_index step_index]) (rule site_router_plain)

text \<open>
  The reply of the router to a parsed request announces the length of the
  body it is sent with, once, unless the request is a HEAD request.
\<close>

theorem routed_reply_framed:
  assumes "parse method_start empty_request inp = Some (good, rest, s, req)"
    and "route fsys R req rep = Inr r" "req_method req \<noteq> ''HEAD''"
  shows "framed r"
proof (cases "fst (url_decode (req_uri req)) \<and> path_ok (snd (url_decode (req_uri req)))")
  case True
  then obtain p where p: "url_decode (req_uri req) = (True, p)" "path_ok p"
    by (cases "url_decode (req_uri req)") simp
  then show ?thesis
    using framed_entries.try_entries_promise [of "entries_of R (routed_method req)" fsys p req rep r] assms(2,3)
      request_ok_uri_one_line [OF parsed_request_ok [OF assms(1)]]
    by (simp add: route_path)
next
  case False
  obtain d p where u: "url_decode (req_uri req) = (d, p)" by fastforce
  with False assms(2) show ?thesis
    by (cases d) (auto simp: route_bad_path [of req p] route_bad_uri)
qed

theorem routed_reply_framed_witness: "framed index_reply"
  by (rule routed_reply_framed [OF parse_hello route_index]) (simp add: request_of_def)

text \<open>
  C4 (program_answers): a client of server \<open>k\<close> of the program, started from a configuration file, that has
  sent the text of a request gets back the serialisation of the reply of the handler that entry \<open>k\<close> of
  the file describes, and is disconnected, whatever happens on the other connections and servers and
  whatever exceptions are thrown there.
\<close>

theorem program_answers:
  assumes "start_servers env (Config name cf) = Inr apps" "prun (launched True apps) evs p"
    and "pstep p (On k (Written i success n)) p'"
    and "method_ok m" "uri_ok u" "number_ok vmaj" "number_ok vmin"
    and "version_fits vmaj" "version_fits vmin" "lines_ok False ls"
    and "bytes_in i (events_of k evs) = request_text m u vmaj vmin ls @ rest"
  shows "\<exists>es e h bytes fsys rep c. cf = Json (Some es) \<and> k < length es \<and> es ! k = Typed e \<and>
    build_handler (env_sort env) e = Inr h \<and> On k (Received i success bytes fsys None) \<in> set evs \<and>
    handle_request h fsys (request_of m u (int (decimal vmaj)) (int (decimal vmin)) ls) empty_reply = Inr rep \<and>
    objects (servers p' ! k) i = Some c \<and> sent c = wire rep \<and> \<not> socket_open c"
proof -
  have "listening_apps apps"
    using built_listening [OF assms(1)] by (auto simp: listening_apps_def)
  from process_gets_reply [OF assms(2) this assms(3-11)] obtain bytes fsys rep c where "k < length apps"
    and c: "On k (Received i success bytes fsys None) \<in> set evs" "handle_request (fst (apps ! k)) fsys (request_of m u (int (decimal vmaj)) (int (decimal vmin)) ls) empty_reply = Inr rep"
      "objects (servers p' ! k) i = Some c" "sent c = wire rep" "\<not> socket_open c"
    by blast
  moreover from assms(1) obtain es where es: "cf = Json (Some es)" by (auto simp: start_servers_Config)
  ultimately show ?thesis
    using built_entry [of env name es apps k] assms(1) by blast
qed

theorem program_answers_witness:
  "\<exists>fsys rep c. handle_request gone_handler fsys (request_of ''GET'' ''/'' 1 0 []) empty_reply = Inr rep \<and>
     objects (written_server (stock_reply not_found)) 0 = Some c \<and> sent c = wire rep \<and> \<not> socket_open c"
proof -
  have k: "0 < length [(gone_handler, listening False)]" "[(gone_handler, listening False)] ! 0 = (gone_handler, listening False)"
    "handle_request gone_handler site (request_of ''GET'' ''/'' 1 0 []) empty_reply = Inr (stock_reply not_found)"
    by (simp_all add: gone_handler_def handle_request_def return_handler_def)
  have "servers (with_server 0 sv (launched True [(gone_handler, listening False)])) ! 0 = sv" for sv
    by (simp add: with_server_def launched_def)
  with program_answers [OF start_gone prun_hello [OF k] hello_request_ok(1-7) hello_bytes]
  show ?thesis by (auto simp: hello_request_ok(8,9) build_handler_gone)
qed




text \<open>
  C10 (program_confined): what the program sends depends on no file outside the directories that its command line or
  its configuration has it serve. Two sequences of events that differ only in what the file system holds elsewhere,
  while the handlers run, take the program through the same states, in which the bytes sent to every client are
  recorded.
\<close>

theorem program_confined:
  assumes "start_servers env cmd = Inr apps" "std_sort (env_sort env)"
    and "\<And>root. root \<in> served_roots cmd \<Longrightarrow> NUL \<notin> set root"
    and "prun (launched True apps) evs p"
    and "list_all2 (rel_process_event (agree_below_all (served_roots cmd))) evs evs'"
  shows "prun (launched True apps) evs' p"
  using program_same [OF assms(1,2)] assms(3) by (intro prun_same [OF assms(4,5)]) (simp_all add: launched_def)

theorem program_confined_witness:
  "prun (launched True site_apps) (hello_events 0 (\<lambda>t p. if p = ''/etc/passwd'' then Inr (Special (Some [])) else site t p))
     (with_server 0 (answered_server index_reply) (launched True site_apps))"
proof (rule program_confined [OF start_simple quiet_sort _ prun_hello(1) [OF site_apps_simps]])
  have "agree_below ''/srv'' site (\<lambda>t p. if p = ''/etc/passwd'' then Inr (Special (Some [])) else site t p)"
    by (auto simp: agree_below_def below_def path_append_def split: if_splits)
  then show "list_all2 (rel_process_event (agree_below_all (served_roots (Serve ''/srv'' None None))))
      (hello_events 0 site) (hello_events 0 (\<lambda>t p. if p = ''/etc/passwd'' then Inr (Special (Some [])) else site t p))"
    by (simp add: hello_events_def rel_process_event_iff rel_event_iff agree_below_all_def)
qed simp

text \<open>
  C5 (program_serves_file): a client of the program in its simple mode that has sent a GET request, whose URI
  stands in any encoding for a file below the root or for a directory with an index page, gets the bytes of
  that file with status 200, their length and the media type of its extension, and is disconnected, whatever other
  clients do.
\<close>

theorem program_serves_file:
  assumes "start_servers env (Serve root address port) = Inr apps" "std_sort (env_sort env)"
    and "prun (launched True apps) evs p" "pstep p (On k (Written i success n)) p'"
    and "uri_ok u" "number_ok vmaj" "number_ok vmin" "version_fits vmaj" "version_fits vmin" "lines_ok False ls"
    and "bytes_in i (events_of k evs) = request_text ''GET'' u vmaj vmin ls @ rest"
    and "url_decode u = (True, CHR ''/'' # path)" "path_ok (CHR ''/'' # path)"
    and "\<And>bytes fsys t. On k (Received i success bytes fsys None) \<in> set evs \<Longrightarrow>
      web_file (fsys t) (path_append root (relative_path path)) = Some (f, data)"
  shows "\<exists>c. objects (servers p' ! k) i = Some c \<and> \<not> socket_open c \<and>
    sent c = ''HTTP/1.0 200 OK'' @ CRLF @ ''Content-Length: '' @ to_string (length data) @ CRLF @
      ''Content-Type: '' @ extension_to_type (extension f) @ CRLF @ CRLF @ data"
proof -
  let ?req = "request_of ''GET'' u (int (decimal vmaj)) (int (decimal vmin)) ls"
  from assms(1) have apps: "apps = [(Some (\<lambda>fsys. route fsys (simple_router (env_sort env) root)), listening False)]"
    by (simp add: start_servers_Serve)
  then have "listening_apps apps" by (auto simp: listening_apps_def)
  moreover have "method_ok ''GET''" by (rule hello_request_ok(1))
  ultimately obtain bytes fsys rep c where k: "k < length apps"
    and w: "On k (Received i success bytes fsys None) \<in> set evs"
    and h: "handle_request (fst (apps ! k)) fsys ?req empty_reply = Inr rep"
    and c: "objects (servers p' ! k) i = Some c" "sent c = wire rep" "\<not> socket_open c"
    using process_gets_reply [OF assms(3) _ assms(4) _ assms(5-11)] by blast
  have "route fsys (simple_router (env_sort env) root) ?req empty_reply =
      andthen (serve_static fsys root ''/'' (''/'' @ path) ?req empty_reply) (\<lambda>(m, r). Inr r)"
    using simple_router_serves_root [OF assms(2), of ?req path] assms(12,13) by (simp add: request_of_def)
  also have "\<dots> = Inr (empty_reply\<lparr>status := ok, content := data,
      rep_headers := body_headers data (extension_to_type (extension f))\<rparr>)"
    by (subst serve_static_web_file [OF assms(14) [OF w]]) (simp_all add: request_of_def empty_reply_def)
  finally have "rep = empty_reply\<lparr>status := ok, content := data,
      rep_headers := body_headers data (extension_to_type (extension f))\<rparr>"
    using h k by (simp add: apps handle_request_def)
  with c show ?thesis by (simp add: wire_file)
qed

theorem program_serves_file_witness:
  "\<exists>c. objects (written_server index_reply) 0 = Some c \<and> \<not> socket_open c \<and>
     sent c = ''HTTP/1.0 200 OK'' @ CRLF @ ''Content-Length: 2'' @ CRLF @ ''Content-Type: text/html'' @ CRLF @ CRLF @ ''hi''"
proof -
  have "servers (with_server 0 sv (launched True site_apps)) ! 0 = sv" for sv
    by (simp add: with_server_def launched_def site_apps_def)
  then show ?thesis
    using program_serves_file [OF start_simple quiet_sort prun_hello [OF site_apps_simps] hello_request_ok(2-7) hello_bytes root_path, of "''/srv/index.html''" "''hi''"] hi_length
    by (auto simp: hello_events_def site_index index_type)
qed

text \<open>
  C6 (program_serves_location): a client of an entry with locations, of the program started from a configuration
  file, that has sent a GET request whose path, in any encoding, begins with locations of the entry, gets the file
  that the rest of the path stands for below the root of the longest of them, an index page included, with status
  200, length and media type, and is disconnected, whatever happens on other connections and other servers.
\<close>

theorem program_serves_location:
  assumes "start_servers env (Config name (Json (Some es))) = Inr apps" "std_sort (env_sort env)"
    and "prun (launched True apps) evs p" "pstep p (On k (Written i success n)) p'"
    and "uri_ok u" "number_ok vmaj" "number_ok vmin" "version_fits vmaj" "version_fits vmin" "lines_ok False ls"
    and "bytes_in i (events_of k evs) = request_text ''GET'' u vmaj vmin ls @ rest"
    and "es ! k = Typed e" "cfg_return e = None" "cfg_locations e = Some locs"
    and "url_decode u = (True, location_of l @ path)" "path_ok (location_of l @ path)"
    and "longest_location locs l (location_of l @ path)"
    and "\<And>bytes fsys t. On k (Received i success bytes fsys None) \<in> set evs \<Longrightarrow>
      web_file (fsys t) (path_append (root_of l) (relative_path path)) = Some (f, data)"
  shows "\<exists>c. objects (servers p' ! k) i = Some c \<and> \<not> socket_open c \<and>
    sent c = ''HTTP/1.0 200 OK'' @ CRLF @ ''Content-Length: '' @ to_string (length data) @ CRLF @
      ''Content-Type: '' @ extension_to_type (extension f) @ CRLF @ CRLF @ data"
proof -
  let ?req = "request_of ''GET'' u (int (decimal vmaj)) (int (decimal vmin)) ls"
  have "listening_apps apps"
    using built_listening [OF assms(1)] by (auto simp: listening_apps_def)
  moreover have "method_ok ''GET''" by (rule hello_request_ok(1))
  ultimately obtain bytes fsys rep c where k: "k < length apps"
    and w: "On k (Received i success bytes fsys None) \<in> set evs"
    and h: "handle_request (fst (apps ! k)) fsys ?req empty_reply = Inr rep"
    and c: "objects (servers p' ! k) i = Some c" "sent c = wire rep" "\<not> socket_open c"
    using process_gets_reply [OF assms(3) _ assms(4) _ assms(5-11)] by blast
  have b: "build_handler (env_sort env) e = Inr (fst (apps ! k))"
    using built_entry [OF assms(1) k] assms(12) by auto
  have "handle_request (fst (apps ! k)) fsys ?req empty_reply =
      andthen (serve_static fsys (root_of l) (location_of l) (location_of l @ path) ?req empty_reply) (\<lambda>(m, r). Inr r)"
    using assms(15) by (intro configured_serves [OF assms(2) b assms(13,14) _ assms(16) _ assms(17)])
      (simp_all add: request_of_def routed_method_def)
  also have "\<dots> = Inr (empty_reply\<lparr>status := ok, content := data,
      rep_headers := body_headers data (extension_to_type (extension f))\<rparr>)"
    by (subst serve_static_web_file [OF assms(18) [OF w]]) (simp_all add: request_of_def empty_reply_def)
  finally show ?thesis using h c by (simp add: wire_file)
qed

theorem program_serves_location_witness:
  "\<exists>c. objects (written_server index_reply) 0 = Some c \<and> \<not> socket_open c \<and>
     sent c = ''HTTP/1.0 200 OK'' @ CRLF @ ''Content-Length: 2'' @ CRLF @ ''Content-Type: text/html'' @ CRLF @ CRLF @ ''hi''"
proof -
  let ?l = "site_location ''/'' ''/srv''"
  let ?locs = "[?l, site_location ''/doc'' ''/usr/doc'']"
  obtain h where h: "build_handler insertion_sort site_entry = Inr h"
    and start: "start_servers quiet_environment (Config ''f16.json'' (Json (Some [Typed site_entry]))) = Inr [(h, listening False)]"
    by (rule start_site)
  have long: "longest_location ?locs ?l ''/''" by (simp add: longest_location_def del: location_of.simps)
  have "handle_request h site (request_of ''GET'' ''/'' 1 0 []) empty_reply = Inr index_reply"
    using configured_serves [OF entry_sort.std_sort_axioms h site_entry_simps, of "request_of ''GET'' ''/'' 1 0 []" "''/''" ?l site empty_reply]
      long by (simp add: request_of_sel root_path serve_index del: location_of.simps root_of.simps)
  then have k: "0 < length [(h, listening False)]" "[(h, listening False)] ! 0 = (h, listening False)"
    "handle_request h site (request_of ''GET'' ''/'' 1 0 []) empty_reply = Inr index_reply"
    by simp_all
  have "servers (with_server 0 sv (launched True [(h, listening False)])) ! 0 = sv" for sv
    by (simp add: with_server_def launched_def)
  then show ?thesis
    using program_serves_location [OF start quiet_sort prun_hello [OF k] hello_request_ok(2-7) hello_bytes, of site_entry ?locs ?l "[]"
        "''/srv/index.html''" "''hi''"] root_path long hi_length
    by (auto simp: hello_events_def site_index index_type simp del: location_of.simps root_of.simps)
qed

text \<open>The whole of \<^verbatim>\<open>main\<close> of the program\<close>

definition program_returns :: "environment \<Rightarrow> command_line \<Rightarrow> file_history process_event list \<Rightarrow> int \<Rightarrow> bool" where
  "program_returns env cmd evs code = main_returns True (start_servers env cmd) evs code"

text \<open>It ends at once with the exit code of its set-up, or with 0 after a signal.\<close>

lemma program_exit_codes:
  "program_returns env (Config name cf) evs code \<Longrightarrow>
     code = 1 \<and> evs = [] \<or> code = 0 \<and> Signal \<in> set evs"
  using attended_main [of "start_servers env (Config name cf)" evs code] start_servers_code
  by (auto simp: program_returns_def)

lemma program_can_end:
  assumes "main_runs True (start_servers env cmd) evs p" "\<nexists>code. control p = Exited code"
  shows "\<exists>evs'. program_returns env cmd (evs @ evs') 0 \<and> set evs' \<subseteq> {Print_and_retry, Signal, Return}"
  unfolding program_returns_def by (rule attended_can_end [OF assms])

end
